theory Spec2Isabelle
  imports Complex_Main "HOL-Library.AList"
begin

section \<open>The Olive engine (olive/engine/engine.py)\<close>

text \<open>
  The engine is embedded function by function. Python exceptions are values of the
  datatype \<open>exn\<close> carried in the left summand of a result; only subclasses of
  \<open>Exception\<close> are represented, an instance of a subclass being represented by the
  class that the engine's \<open>except\<close> clauses match it with.
\<close>

datatype exn =
    OlivePassException
  | AttributeError
  | ImportError
  | TypeError
  | ValueError
  | AssertionError
  | KeyError
  | IndexError
  | OSError
  | OtherException string

text \<open>\<open>EXCEPTIONS_TO_RAISE = (AttributeError, ImportError, TypeError, ValueError)\<close>\<close>

definition EXCEPTIONS_TO_RAISE :: "exn list" where
  "EXCEPTIONS_TO_RAISE = [AttributeError, ImportError, TypeError, ValueError]"

subsection \<open>Strings\<close>

definition lower_char :: "char \<Rightarrow> char" where
  "lower_char c =
     (case map_of (zip ''ABCDEFGHIJKLMNOPQRSTUVWXYZ'' ''abcdefghijklmnopqrstuvwxyz'') c of
        Some l \<Rightarrow> l
      | None \<Rightarrow> c)"

text \<open>\<open>str.lower()\<close> on ASCII text.\<close>

definition lower :: "string \<Rightarrow> string" where
  "lower s = map lower_char s"

text \<open>\<open>str(n)\<close> for an integer: decimal digits, with a minus sign when negative.\<close>

definition digit_char :: "nat \<Rightarrow> char" where
  "digit_char d = ''0123456789'' ! d"

fun str_nat :: "nat \<Rightarrow> string" where
  "str_nat n = (if n < 10 then [digit_char n] else str_nat (n div 10) @ [digit_char (n mod 10)])"

declare str_nat.simps [simp del]

definition str_int :: "int \<Rightarrow> string" where
  "str_int i = (if i < 0 then CHR ''-'' # str_nat (nat (- i)) else str_nat (nat i))"

text \<open>
  \<open>int(s)\<close> for a string: surrounding whitespace is stripped, then an optional sign and
  at least one decimal digit. \<open>None\<close> stands for ValueError. (Underscores between
  digits, which Python accepts, do not occur: the engine applies \<open>int\<close> to a string that
  was split at underscores. Digits outside ASCII are not represented.)
\<close>

definition digit_val :: "char \<Rightarrow> nat option" where
  "digit_val c = map_of (zip ''0123456789'' [0, 1, 2, 3, 4, 5, 6, 7, 8, 9]) c"

fun digits_acc :: "nat \<Rightarrow> string \<Rightarrow> nat option" where
  "digits_acc acc [] = Some acc"
| "digits_acc acc (c # cs) =
     (case digit_val c of None \<Rightarrow> None | Some d \<Rightarrow> digits_acc (10 * acc + d) cs)"

definition digits_value :: "string \<Rightarrow> nat option" where
  "digits_value s = (if s = [] then None else digits_acc 0 s)"

definition is_space :: "char \<Rightarrow> bool" where
  "is_space c \<longleftrightarrow>
     c \<in> set [CHR 0x09, CHR 0x0A, CHR 0x0B, CHR 0x0C, CHR 0x0D,
                CHR 0x1C, CHR 0x1D, CHR 0x1E, CHR 0x1F, CHR '' '']"

definition strip :: "string \<Rightarrow> string" where
  "strip s = rev (dropWhile is_space (rev (dropWhile is_space s)))"

definition py_int :: "string \<Rightarrow> int option" where
  "py_int s =
     (case strip s of
        [] \<Rightarrow> None
      | c # r \<Rightarrow>
          if c = CHR ''-'' then map_option (\<lambda>n. - int n) (digits_value r)
          else if c = CHR ''+'' then map_option int (digits_value r)
          else map_option int (digits_value (c # r)))"

text \<open>\<open>s.startswith(p)\<close>, \<open>s.endswith(p)\<close> and \<open>s.split("_")[0]\<close>.\<close>

definition startswith :: "string \<Rightarrow> string \<Rightarrow> bool" where
  "startswith s p \<longleftrightarrow> take (length p) s = p"

definition endswith :: "string \<Rightarrow> string \<Rightarrow> bool" where
  "endswith s p \<longleftrightarrow> length p \<le> length s \<and> drop (length s - length p) s = p"

definition split_first :: "string \<Rightarrow> string" where
  "split_first s = takeWhile (\<lambda>c. c \<noteq> CHR ''_'') s"

text \<open>
  \<open>Path.stem\<close> of a file name: with \<open>i = name.rfind('.')\<close>, the stem is \<open>name[:i]\<close> when
  \<open>0 < i < len(name) - 1\<close> and the whole name otherwise. Here \<open>ext\<close> is the text after
  the last dot and \<open>base\<close> the text before it.
\<close>

definition stem :: "string \<Rightarrow> string" where
  "stem name =
     (let ext = takeWhile (\<lambda>c. c \<noteq> CHR ''.'') (rev name);
          base = rev (tl (dropWhile (\<lambda>c. c \<noteq> CHR ''.'') (rev name)))
      in if CHR ''.'' \<in> set name \<and> base \<noteq> [] \<and> ext \<noteq> [] then base else name)"

text \<open>
  The two glob patterns of the engine on the entries of a directory: \<open>glob("*_*")\<close> and
  \<open>glob(f"{n}_*")\<close>.
\<close>

definition glob_any_underscore :: "string list \<Rightarrow> string list" where
  "glob_any_underscore names = filter (\<lambda>name. CHR ''_'' \<in> set name) names"

definition glob_number :: "int \<Rightarrow> string list \<Rightarrow> string list" where
  "glob_number n names = filter (\<lambda>name. startswith name (str_int n @ ''_'')) names"

subsection \<open>JSON values, models, passes and systems\<close>

datatype json =
    JNull
  | JBool bool
  | JInt int
  | JString string
  | JArray "json list"
  | JObject "(string \<times> json) list"


text \<open>
  Modelled from the spec: the model classes (\<open>OliveModel\<close>, \<open>ModelConfig\<close>) and the
  sentinel \<open>PRUNED_CONFIG\<close> are imported by engine.py. The spec has a model as an opaque,
  serializable artifact with the tagged variant "Model = Real(artifact) | Pruned", whose
  only operations are \<open>to_json\<close> and \<open>ModelConfig.from_json(obj).create_model()\<close>, and
  which round-trips through them. A model is represented by the JSON that \<open>to_json\<close> gives.
\<close>

datatype model = PRUNED_CONFIG | OliveModel json

definition create_model :: "json \<Rightarrow> model" where
  "create_model model_json = OliveModel model_json"

text \<open>
  \<open>output_model.to_json() if output_model != PRUNED_CONFIG else {"is_pruned": True}\<close>
\<close>

definition model_config_of :: "model \<Rightarrow> json" where
  "model_config_of m =
     (case m of PRUNED_CONFIG \<Rightarrow> JObject [(''is_pruned'', JBool True)] | OliveModel j \<Rightarrow> j)"

record AcceleratorSpec =
  accelerator_type :: string
  execution_provider :: string

text \<open>
  Modelled from the spec: \<open>AcceleratorSpec\<close> is imported by engine.py; its string
  rendering "appears verbatim in filenames and ModelIds", and the first end-to-end
  scenario of the spec renders CPU with CPUExecutionProvider as
  \<open>CPU-CPUExecutionProvider\<close>: device, a dash, execution provider.
\<close>

definition str_accelerator_spec :: "AcceleratorSpec \<Rightarrow> string" where
  "str_accelerator_spec a = accelerator_type a @ ''-'' @ execution_provider a"

text \<open>
  Modelled from the spec: metrics and metric results are imported by engine.py. A metric
  carries per sub-metric \<open>{goal?, priority, higher_is_better}\<close>, a goal has a type and a
  value, and a \<open>MetricResult\<close> is a mapping from the joint key of a metric and a
  sub-metric to \<open>{value, priority, higher_is_better}\<close>. Numbers are real numbers.
\<close>

record Goal =
  goal_type :: string
  goal_value :: real

record SubType =
  sub_type_name :: string
  priority :: int
  higher_is_better :: bool
  goal :: "Goal option"

record Metric =
  metric_name :: string
  sub_types :: "SubType list"

record SubMetricResult =
  result_value :: real
  result_priority :: int
  result_higher_is_better :: bool

type_synonym MetricResult = "(string \<times> SubMetricResult) list"

record OliveEvaluatorConfig =
  metrics :: "Metric list"

text \<open>
  A pass instance, with the members that the engine calls. \<open>class_name\<close> is
  \<open>p.__class__.__name__\<close>; a search space is a dictionary, of which the engine only
  takes the length.
\<close>

record Pass =
  class_name :: string
  search_space :: "(string \<times> json) list"
  validate_search_point :: "json \<Rightarrow> bool"
  config_at_search_point :: "json \<Rightarrow> json"
  serialize_config :: "json \<Rightarrow> json"
  is_accelerator_agnostic :: "AcceleratorSpec \<Rightarrow> bool"

datatype SystemType = Local | PythonEnvironment | Docker | AzureML

text \<open>
  An \<open>OliveSystem\<close> (a host or a target), with the members that the engine uses. The
  input model of \<open>run_pass\<close> and \<open>evaluate_model\<close> is optional because \<open>_load_model\<close>
  may have returned \<open>None\<close> for it.
\<close>

record OliveSystem =
  system_type :: SystemType
  accelerators :: "string list option"
  get_supported_execution_providers :: "string list"
  run_pass :: "Pass \<Rightarrow> model option \<Rightarrow> string \<Rightarrow> json \<Rightarrow> exn + model"
  evaluate_model :: "model option \<Rightarrow> Metric list \<Rightarrow> AcceleratorSpec \<Rightarrow> exn + MetricResult"

subsection \<open>Accelerator specs (Engine.__init__, lines 83 to 128)\<close>

text \<open>
  The \<open>Device\<close> enumeration and \<open>AcceleratorLookup\<close> are not part of engine.py: the
  values of the enumeration (\<open>device_values\<close>) and the lookup of the providers a
  device supports (\<open>lookup\<close>) are parameters.
\<close>

text \<open>The string constants the resolver compares with.\<close>

definition CPUExecutionProvider :: string where
  "CPUExecutionProvider = ''CPUExecutionProvider''"

definition Device_CPU :: string where
  "Device_CPU = ''cpu''"

text \<open>\<open>Device(value)\<close>: the enumeration's constructor raises ValueError on an unknown value.\<close>

definition Device :: "string list \<Rightarrow> string \<Rightarrow> exn + string" where
  "Device device_values v = (if v \<in> set device_values then Inr v else Inl ValueError)"

text \<open>
  The loop state is \<open>(not_supported_ep, processed_ep, accelerator_specs)\<close>. One
  iteration of the inner loop \<open>for ep in eps\<close>:
\<close>

type_synonym resolver_state = "string set \<times> string set \<times> AcceleratorSpec list"

definition ep_step ::
  "string list \<Rightarrow> string \<Rightarrow> bool \<Rightarrow> string \<Rightarrow> resolver_state \<Rightarrow> resolver_state" where
  "ep_step supported_eps device is_cpu_available ep st =
     (case st of (not_supported_ep, processed_ep, accelerator_specs) \<Rightarrow>
        if ep \<notin> set supported_eps then
          (insert ep not_supported_ep, insert ep processed_ep, accelerator_specs)
        else if ep = CPUExecutionProvider \<and> device \<noteq> Device_CPU \<and> is_cpu_available then
          (not_supported_ep, processed_ep, accelerator_specs)
        else
          (not_supported_ep, insert ep processed_ep,
           accelerator_specs @ [\<lparr>accelerator_type = device, execution_provider = ep\<rparr>]))"

text \<open>The outer loop \<open>for accelerator in accelerators\<close>.\<close>

fun accelerator_loop ::
  "string list \<Rightarrow> (string \<Rightarrow> string list) \<Rightarrow> string list \<Rightarrow> bool \<Rightarrow> string list \<Rightarrow>
   resolver_state \<Rightarrow> exn + resolver_state" where
  "accelerator_loop device_values lookup execution_providers is_cpu_available [] st = Inr st"
| "accelerator_loop device_values lookup execution_providers is_cpu_available (accelerator # rest) st =
     (case Device device_values (lower accelerator) of
        Inl e \<Rightarrow> Inl e
      | Inr device \<Rightarrow>
          (let supported_eps = lookup device;
               eps = filter (\<lambda>e. e \<notin> fst (snd st)) execution_providers
           in accelerator_loop device_values lookup execution_providers is_cpu_available rest
                (fold (ep_step supported_eps device is_cpu_available) eps st)))"

text \<open>
  Lines 83 to 97: the execution providers are the argument, else those of the
  configuration (both are \<open>execution_providers\<close> here), else they depend on the target.
\<close>

definition resolve_execution_providers ::
  "OliveSystem \<Rightarrow> string list option \<Rightarrow> exn + string list" where
  "resolve_execution_providers target execution_providers =
     (case execution_providers of
        Some eps \<Rightarrow> Inr eps
      | None \<Rightarrow>
          if system_type target = AzureML then Inl ValueError
          else if system_type target = Local \<or> system_type target = PythonEnvironment
          then Inr (get_supported_execution_providers target)
          else Inr [CPUExecutionProvider])"

text \<open>
  Lines 99 to 123: the result is \<open>self.accelerator_specs\<close>; the \<open>assert\<close> on the final
  list raises AssertionError.
\<close>

definition accelerator_specs_of ::
  "string list \<Rightarrow> (string \<Rightarrow> string list) \<Rightarrow> string list \<Rightarrow> string list option \<Rightarrow>
   exn + AcceleratorSpec list" where
  "accelerator_specs_of device_values lookup execution_providers target_accelerators =
     (let accs = (case target_accelerators of None \<Rightarrow> [''CPU''] | Some a \<Rightarrow> a);
          is_cpu_available = (Device_CPU \<in> set (map lower accs))
      in case accelerator_loop device_values lookup execution_providers is_cpu_available accs
                ({}, {}, []) of
           Inl e \<Rightarrow> Inl e
         | Inr (not_supported_ep, processed_ep, accelerator_specs) \<Rightarrow>
             if accelerator_specs = [] then Inl AssertionError else Inr accelerator_specs)"

definition resolve_accelerator_specs ::
  "string list \<Rightarrow> (string \<Rightarrow> string list) \<Rightarrow> OliveSystem \<Rightarrow> string list option \<Rightarrow>
   exn + AcceleratorSpec list" where
  "resolve_accelerator_specs device_values lookup target execution_providers =
     (case resolve_execution_providers target execution_providers of
        Inl e \<Rightarrow> Inl e
      | Inr eps \<Rightarrow> accelerator_specs_of device_values lookup eps (accelerators target))"

text \<open>A device table and a lookup used as concrete inputs below.\<close>

definition example_devices :: "string list" where
  "example_devices = [''cpu'', ''gpu'']"

definition example_lookup :: "string \<Rightarrow> string list" where
  "example_lookup d =
     (if d = ''cpu'' then [''CPUExecutionProvider'']
      else [''CUDAExecutionProvider'', ''CPUExecutionProvider''])"

subsection \<open>The engine, its cache directory and its collaborators\<close>

text \<open>
  An entry of a directory of the cache: a directory, a file that \<open>open\<close> or
  \<open>json.load\<close> rejects, or a file holding a value.
\<close>

datatype 'a entry = Directory | Unreadable | Content 'a

text \<open>The body of a run JSON and of an evaluation JSON, as \<open>_cache_run\<close> and
  \<open>_cache_evaluation\<close> write them. A file of another shape, on which the key lookups of
  \<open>_load_run\<close> or \<open>_load_evaluation\<close> raise, is \<open>Unreadable\<close>.\<close>

record run_json =
  run_pass_name :: string
  run_pass_config :: json
  run_input_model_id :: string
  run_output_model_id :: "string option"

record evaluation_json =
  evaluation_model_id :: string
  evaluation_signal :: MetricResult

text \<open>The entry of \<open>self.passes\<close> for a pass name, and of \<open>self.pass_config\<close>.\<close>

record pass_item =
  item_pass :: Pass
  item_host :: "OliveSystem option"
  item_evaluator :: "OliveEvaluatorConfig option"
  item_output_name :: "string option"

record pass_type =
  type_name :: string
  generate_search_space :: "AcceleratorSpec \<Rightarrow> json \<Rightarrow> bool \<Rightarrow> exn + json"
  construct :: "AcceleratorSpec \<Rightarrow> json \<Rightarrow> bool \<Rightarrow> exn + Pass"

record pass_descriptor =
  descriptor_type :: pass_type
  descriptor_config :: json
  descriptor_disable_search :: bool
  descriptor_host :: "OliveSystem option"
  descriptor_evaluator :: "OliveEvaluatorConfig option"
  descriptor_clean_run_cache :: bool
  descriptor_output_name :: "string option"

text \<open>A call of \<open>footprints[accelerator_spec].record(...)\<close>, with its keyword arguments.\<close>

record footprint_record =
  footprint_accelerator :: AcceleratorSpec
  footprint_model_id :: string
  footprint_model_config :: "json option"
  footprint_parent_model_id :: "string option"
  footprint_from_pass :: "string option"
  footprint_pass_run_config :: "json option"
  footprint_metrics :: "MetricResult option"

datatype log_level = Warning | Error

text \<open>
  The engine: the attributes of \<open>self\<close> that the embedded methods use, the three
  directories of the cache and the metrics files of the output directory, and a record of
  what the engine did to the outside: the messages logged at warning and error level, the
  calls of \<open>host.run_pass\<close>, of \<open>target.evaluate_model\<close> and of
  \<open>cache_utils.save_model\<close>.
\<close>

record engine =
  clean_cache :: bool
  clean_evaluation_cache :: bool
  no_search :: bool
  host :: OliveSystem
  target :: OliveSystem
  evaluator_config :: "OliveEvaluatorConfig option"
  pass_config :: "(string \<times> pass_descriptor) list"
  passes :: "(string \<times> pass_item) list"
  pass_search_spaces :: "(string \<times> (string \<times> json) list) list"
  new_model_number :: int
  initialized :: bool
  footprints :: "footprint_record list"
  model_cache :: "(string \<times> json entry) list"
  run_cache :: "(string \<times> run_json entry) list"
  evaluation_cache :: "(string \<times> evaluation_json entry) list"
  output_dir :: "(string \<times> MetricResult) list"
  logged :: "(log_level \<times> string) list"
  host_calls :: "(string \<times> model option \<times> string \<times> json) list"
  target_calls :: "(model option \<times> AcceleratorSpec) list"
  saved_models :: "(string \<times> string) list"

text \<open>
  What engine.py imports and the environment decides: \<open>hash_dict\<close> and
  \<open>joint_metric_key\<close> (olive.common.utils, olive.evaluator.metric), whether a path can be
  written (\<open>writable\<close>), whether a model's resource path is neither \<open>None\<close>, nor local,
  nor a string name (\<open>is_non_local\<close>), \<open>cache_utils.download_resource\<close> followed by
  \<open>set_local_model_path\<close> (\<open>download_resource\<close>), \<open>cache_utils.clean_pass_run_cache\<close> on
  the three directories, \<open>cache_utils.save_model\<close>, and the first step that the search
  strategy proposes after \<open>initialize\<close>.
\<close>

record step =
  step_model_id :: string
  step_search_point :: json
  step_passes :: "(string \<times> json) list"

record objective =
  objective_higher_is_better :: bool
  objective_goal :: "real option"
  objective_priority :: "int option"

record collaborators =
  hash_dict :: "json \<Rightarrow> string"
  joint_metric_key :: "string \<Rightarrow> string \<Rightarrow> string"
  writable :: "string \<Rightarrow> bool"
  is_non_local :: "json \<Rightarrow> bool"
  download_resource :: "json \<Rightarrow> exn + json"
  clean_pass_run_cache ::
    "string \<Rightarrow> (string \<times> json entry) list \<times> (string \<times> run_json entry) list \<times>
       (string \<times> evaluation_json entry) list \<Rightarrow>
     (string \<times> json entry) list \<times> (string \<times> run_json entry) list \<times>
       (string \<times> evaluation_json entry) list"
  save_model :: "string \<Rightarrow> string \<Rightarrow> exn + json option"
  first_step ::
    "(string \<times> (string \<times> json) list) list \<Rightarrow> string \<Rightarrow> (string \<times> objective) list \<Rightarrow>
     exn + step option"

subsection \<open>Files\<close>

definition read_file :: "(string \<times> 'a entry) list \<Rightarrow> string \<Rightarrow> 'a option" where
  "read_file files name = (case map_of files name of Some (Content x) \<Rightarrow> Some x | _ \<Rightarrow> None)"

definition path_exists :: "(string \<times> 'a entry) list \<Rightarrow> string \<Rightarrow> bool" where
  "path_exists files name \<longleftrightarrow> map_of files name \<noteq> None"

text \<open>
  \<open>open(path, "w")\<close> followed by \<open>json.dump\<close>: \<open>None\<close> when it raises, which it does on
  a path that cannot be written and on a directory.
\<close>

definition write_file ::
  "(string \<Rightarrow> bool) \<Rightarrow> string \<Rightarrow> string \<Rightarrow> 'a \<Rightarrow> (string \<times> 'a entry) list \<Rightarrow>
   (string \<times> 'a entry) list option" where
  "write_file can_write dir name x files =
     (if can_write (dir @ ''/'' @ name) \<and> map_of files name \<noteq> Some Directory
      then Some (AList.update name (Content x) files) else None)"

text \<open>
  \<open>path.mkdir(parents=True, exist_ok=True)\<close>: raises on a path that cannot be written
  and on an existing file, and leaves an existing directory as it is.
\<close>

definition mkdir ::
  "(string \<Rightarrow> bool) \<Rightarrow> string \<Rightarrow> string \<Rightarrow> (string \<times> 'a entry) list \<Rightarrow>
   exn + (string \<times> 'a entry) list" where
  "mkdir can_write dir name files =
     (case map_of files name of
        Some Directory \<Rightarrow> Inr files
      | Some _ \<Rightarrow> Inl OSError
      | None \<Rightarrow> if can_write (dir @ ''/'' @ name) then Inr (files @ [(name, Directory)])
                else Inl OSError)"

definition log_message :: "log_level \<Rightarrow> string \<Rightarrow> engine \<Rightarrow> engine" where
  "log_message level msg s = s\<lparr>logged := logged s @ [(level, msg)]\<rparr>"

subsection \<open>Model numbers\<close>

text \<open>
  \<open>initialize\<close>, lines 167 to 174, on the names of the entries of the model cache:
  \<open>max([int(model_file.stem.split("_")[0]) for model_file in model_files]) + 1\<close>, where
  \<open>int\<close> raises ValueError.
\<close>

definition initial_model_number :: "string list \<Rightarrow> exn + int" where
  "initial_model_number names =
     (let model_files = glob_any_underscore names in
      if length model_files > 0 then
        (case those (map (\<lambda>model_file. py_int (split_first (stem model_file))) model_files) of
           None \<Rightarrow> Inl ValueError
         | Some numbers \<Rightarrow> Inr (Max (set numbers) + 1))
      else Inr 0)"

text \<open>
  Modelled from the spec: \<open>cache_utils.clean_cache\<close> and
  \<open>cache_utils.clean_evaluation_cache\<close> are imported by engine.py; the spec has them as
  "bulk removal with directory recreation".
\<close>

definition clean_caches :: "engine \<Rightarrow> engine" where
  "clean_caches s =
     (let s1 = (if clean_cache s
                then s\<lparr>model_cache := [], run_cache := [], evaluation_cache := []\<rparr> else s)
      in if clean_evaluation_cache s1 then s1\<lparr>evaluation_cache := []\<rparr> else s1)"

definition clean_run_caches :: "collaborators \<Rightarrow> engine \<Rightarrow> engine" where
  "clean_run_caches c s =
     fold (\<lambda>pc st.
            if descriptor_clean_run_cache pc then
              (case clean_pass_run_cache c (type_name (descriptor_type pc))
                      (model_cache st, run_cache st, evaluation_cache st) of
                 (ms, rs, es) \<Rightarrow> st\<lparr>model_cache := ms, run_cache := rs, evaluation_cache := es\<rparr>)
            else st)
          (map snd (pass_config s)) s"

definition initialize :: "collaborators \<Rightarrow> engine \<Rightarrow> (exn + unit) \<times> engine" where
  "initialize c s =
     (let s1 = clean_caches s;
          s2 = s1\<lparr>new_model_number := 0\<rparr>
      in case initial_model_number (map fst (model_cache s2)) of
           Inl e \<Rightarrow> (Inl e, s2)
         | Inr n \<Rightarrow> (Inr (), (clean_run_caches c (s2\<lparr>new_model_number := n\<rparr>))\<lparr>initialized := True\<rparr>))"

text \<open>
  \<open>_get_new_model_number\<close>: the loop on the counter \<open>self._new_model_number\<close>, given the
  names of the entries of the model cache. It returns the new model number and the
  counter.
\<close>

function get_new_model_number_loop :: "string list \<Rightarrow> int \<Rightarrow> int \<times> int" where
  "get_new_model_number_loop names counter =
     (if glob_number counter names = [] then (counter, counter + 1)
      else get_new_model_number_loop names (counter + 1))"
  by pat_completeness auto

definition get_new_model_number :: "engine \<Rightarrow> int \<times> engine" where
  "get_new_model_number s =
     (case get_new_model_number_loop (map fst (model_cache s)) (new_model_number s) of
        (new_model_number', counter) \<Rightarrow> (new_model_number', s\<lparr>new_model_number := counter\<rparr>))"

subsection \<open>The model cache and the run cache\<close>

definition get_model_json_path :: "string \<Rightarrow> string" where
  "get_model_json_path model_id = model_id @ ''.json''"

definition cache_model :: "collaborators \<Rightarrow> model \<Rightarrow> string \<Rightarrow> engine \<Rightarrow> engine" where
  "cache_model c m model_id s =
     (let model_json = (case m of PRUNED_CONFIG \<Rightarrow> JObject [] | OliveModel j \<Rightarrow> j)
      in case write_file (writable c) ''models'' (get_model_json_path model_id) model_json
                (model_cache s) of
           Some files \<Rightarrow> s\<lparr>model_cache := files\<rparr>
         | None \<Rightarrow> log_message Error ''Failed to cache model'' s)"

definition load_model :: "string \<Rightarrow> engine \<Rightarrow> model option \<times> engine" where
  "load_model model_id s =
     (case read_file (model_cache s) (get_model_json_path model_id) of
        None \<Rightarrow> (None, log_message Error ''Failed to load model'' s)
      | Some model_json \<Rightarrow>
          if model_json = JObject [] then (Some PRUNED_CONFIG, s)
          else (Some (create_model model_json), s))"

definition get_run_json_path ::
  "collaborators \<Rightarrow> string \<Rightarrow> string \<Rightarrow> json \<Rightarrow> AcceleratorSpec option \<Rightarrow> string" where
  "get_run_json_path c pass_name input_model_number pass_cfg accelerator_spec =
     (let pass_config_hash = hash_dict c pass_cfg in
      case accelerator_spec of
        None \<Rightarrow> pass_name @ ''-'' @ input_model_number @ ''-'' @ pass_config_hash @ ''.json''
      | Some a \<Rightarrow> pass_name @ ''-'' @ input_model_number @ ''-'' @ pass_config_hash @ ''-''
                   @ str_accelerator_spec a @ ''.json'')"

definition cache_run ::
  "collaborators \<Rightarrow> string \<Rightarrow> json \<Rightarrow> string \<Rightarrow> string \<Rightarrow> AcceleratorSpec option \<Rightarrow>
   engine \<Rightarrow> engine" where
  "cache_run c pass_name pass_cfg input_model_id output_model_id accelerator_spec s =
     (let run_json = \<lparr>run_pass_name = pass_name, run_pass_config = pass_cfg,
                       run_input_model_id = input_model_id,
                       run_output_model_id = Some output_model_id\<rparr>;
          input_model_number = split_first input_model_id;
          run_json_path = get_run_json_path c pass_name input_model_number pass_cfg accelerator_spec
      in case write_file (writable c) ''runs'' run_json_path run_json (run_cache s) of
           Some files \<Rightarrow> s\<lparr>run_cache := files\<rparr>
         | None \<Rightarrow> log_message Error ''Failed to cache run'' s)"

definition load_run ::
  "collaborators \<Rightarrow> string \<Rightarrow> string \<Rightarrow> json \<Rightarrow> AcceleratorSpec option \<Rightarrow> engine \<Rightarrow>
   string option \<times> engine" where
  "load_run c input_model_id pass_name pass_cfg accelerator_spec s =
     (let input_model_number = split_first input_model_id;
          run_json_path = get_run_json_path c pass_name input_model_number pass_cfg accelerator_spec
      in if path_exists (run_cache s) run_json_path then
           (case read_file (run_cache s) run_json_path of
              Some run_json \<Rightarrow> (run_output_model_id run_json, s)
            | None \<Rightarrow> (None, log_message Error ''Failed to load run'' s))
         else (None, s))"

subsection \<open>Evaluation\<close>

definition get_evaluation_json_path :: "string \<Rightarrow> string" where
  "get_evaluation_json_path model_id = model_id @ ''.json''"

definition cache_evaluation :: "collaborators \<Rightarrow> string \<Rightarrow> MetricResult \<Rightarrow> engine \<Rightarrow> engine" where
  "cache_evaluation c model_id signal s =
     (let evaluation_json = \<lparr>evaluation_model_id = model_id, evaluation_signal = signal\<rparr>
      in case write_file (writable c) ''evaluations'' (get_evaluation_json_path model_id)
                evaluation_json (evaluation_cache s) of
           Some files \<Rightarrow> s\<lparr>evaluation_cache := files\<rparr>
         | None \<Rightarrow> log_message Error ''Failed to cache evaluation'' s)"

definition load_evaluation :: "string \<Rightarrow> engine \<Rightarrow> MetricResult option \<times> engine" where
  "load_evaluation model_id s =
     (let evaluation_json_path = get_evaluation_json_path model_id in
      if path_exists (evaluation_cache s) evaluation_json_path then
        (case read_file (evaluation_cache s) evaluation_json_path of
           Some evaluation_json \<Rightarrow> (Some (evaluation_signal evaluation_json), s)
         | None \<Rightarrow> (None, log_message Error ''Failed to load evaluation'' s))
      else (None, s))"

text \<open>
  \<open>_prepare_non_local_model\<close>. Reading \<open>model.model_resource_path\<close> raises
  AttributeError when the model is \<open>None\<close> or the sentinel, which is a string.
\<close>

definition prepare_non_local_model :: "collaborators \<Rightarrow> model option \<Rightarrow> exn + model option" where
  "prepare_non_local_model c m =
     (case m of
        Some (OliveModel j) \<Rightarrow>
          if \<not> is_non_local c j then Inr m
          else (case download_resource c j of
                  Inl e \<Rightarrow> Inl e
                | Inr j' \<Rightarrow> Inr (Some (OliveModel j')))
      | _ \<Rightarrow> Inl AttributeError)"

definition record_metrics :: "AcceleratorSpec \<Rightarrow> string \<Rightarrow> MetricResult \<Rightarrow> engine \<Rightarrow> engine" where
  "record_metrics accelerator_spec model_id signal s =
     s\<lparr>footprints := footprints s @
        [\<lparr>footprint_accelerator = accelerator_spec, footprint_model_id = model_id,
          footprint_model_config = None, footprint_parent_model_id = None,
          footprint_from_pass = None, footprint_pass_run_config = None,
          footprint_metrics = Some signal\<rparr>]\<rparr>"

text \<open>\<open>_evaluate_model\<close>\<close>

definition engine_evaluate_model ::
  "collaborators \<Rightarrow> model option \<Rightarrow> string \<Rightarrow> OliveEvaluatorConfig option \<Rightarrow> AcceleratorSpec \<Rightarrow>
   engine \<Rightarrow> (exn + MetricResult) \<times> engine" where
  "engine_evaluate_model c m model_id evaluator accelerator_spec s =
     (let accelerator_suffix = ''-'' @ str_accelerator_spec accelerator_spec;
          model_id_with_accelerator =
            (if \<not> endswith model_id accelerator_suffix then model_id @ accelerator_suffix
             else model_id)
      in case load_evaluation model_id_with_accelerator s of
           (Some signal, s1) \<Rightarrow> (Inr signal, record_metrics accelerator_spec model_id signal s1)
         | (None, s1) \<Rightarrow>
             (let ms = (case evaluator of Some e \<Rightarrow> metrics e | None \<Rightarrow> [])
              in case (if system_type (target s1) \<noteq> AzureML then prepare_non_local_model c m
                       else Inr m) of
                   Inl e \<Rightarrow> (Inl e, s1)
                 | Inr m' \<Rightarrow>
                     (let s2 = s1\<lparr>target_calls := target_calls s1 @ [(m', accelerator_spec)]\<rparr>
                      in case evaluate_model (target s2) m' ms accelerator_spec of
                           Inl e \<Rightarrow> (Inl e, s2)
                         | Inr signal \<Rightarrow>
                             (Inr signal,
                              record_metrics accelerator_spec model_id signal
                                (cache_evaluation c model_id_with_accelerator signal s2)))))"

subsection \<open>Running a pass\<close>

definition host_for_pass :: "engine \<Rightarrow> string \<Rightarrow> exn + OliveSystem" where
  "host_for_pass s pass_id =
     (case map_of (passes s) pass_id of
        None \<Rightarrow> Inl KeyError
      | Some item \<Rightarrow> (case item_host item of None \<Rightarrow> Inr (host s) | Some h \<Rightarrow> Inr h))"


definition record_run ::
  "AcceleratorSpec \<Rightarrow> string \<Rightarrow> model \<Rightarrow> string \<Rightarrow> string \<Rightarrow> json \<Rightarrow> engine \<Rightarrow> engine" where
  "record_run accelerator_spec output_model_id output_model input_model_id pass_name pass_cfg s =
     s\<lparr>footprints := footprints s @
        [\<lparr>footprint_accelerator = accelerator_spec, footprint_model_id = output_model_id,
          footprint_model_config = Some (model_config_of output_model),
          footprint_parent_model_id = Some input_model_id,
          footprint_from_pass = Some pass_name, footprint_pass_run_config = Some pass_cfg,
          footprint_metrics = None\<rparr>]\<rparr>"

text \<open>
  Lines 891 to 906 of \<open>_run_pass\<close>: the call of \<open>host.run_pass\<close> and its \<open>except\<close>
  clauses, in their order.
\<close>

definition try_run_pass ::
  "OliveSystem \<Rightarrow> Pass \<Rightarrow> model option \<Rightarrow> string \<Rightarrow> json \<Rightarrow> engine \<Rightarrow> (exn + model) \<times> engine" where
  "try_run_pass h p input_model output_model_path pass_search_point s =
     (let s1 = s\<lparr>host_calls := host_calls s @
                   [(class_name p, input_model, output_model_path, pass_search_point)]\<rparr>
      in case run_pass h p input_model output_model_path pass_search_point of
           Inr output_model \<Rightarrow> (Inr output_model, s1)
         | Inl e \<Rightarrow>
             if e = OlivePassException then
               (Inr PRUNED_CONFIG, log_message Error ''Pass run_pass failed'' s1)
             else if e \<in> set EXCEPTIONS_TO_RAISE then (Inl e, s1)
             else (let s2 = log_message Error ''Pass run failed.'' s1
                   in if no_search s2 then (Inl e, s2) else (Inr PRUNED_CONFIG, s2)))"

text \<open>
  Lines 866 to 878 of \<open>_run_pass\<close>: the id of the output model, from the new model
  number.
\<close>

definition new_output_model_id ::
  "collaborators \<Rightarrow> int \<Rightarrow> Pass \<Rightarrow> json \<Rightarrow> string \<Rightarrow> AcceleratorSpec \<Rightarrow> string" where
  "new_output_model_id c number p pass_cfg input_model_id accelerator_spec =
     str_int number @ ''_'' @ class_name p @ ''-'' @ split_first input_model_id @ ''-''
       @ hash_dict c pass_cfg
       @ (if \<not> is_accelerator_agnostic p accelerator_spec
          then ''-'' @ str_accelerator_spec accelerator_spec else [])"

definition run_accel_of :: "Pass \<Rightarrow> AcceleratorSpec \<Rightarrow> AcceleratorSpec option" where
  "run_accel_of p accelerator_spec =
     (if is_accelerator_agnostic p accelerator_spec then None else Some accelerator_spec)"

text \<open>Lines 865 to 922 of \<open>_run_pass\<close>: the pass is run and its output is cached.\<close>

definition run_pass_uncached ::
  "collaborators \<Rightarrow> string \<Rightarrow> Pass \<Rightarrow> json \<Rightarrow> json \<Rightarrow> model option \<Rightarrow> string \<Rightarrow>
   AcceleratorSpec \<Rightarrow> engine \<Rightarrow> (exn + model \<times> string) \<times> engine" where
  "run_pass_uncached c pass_id p pass_search_point pass_cfg input_model input_model_id
     accelerator_spec s =
     (let pass_name = class_name p;
          run_accel = run_accel_of p accelerator_spec
      in case get_new_model_number s of (number, s1) \<Rightarrow>
         (let output_model_id =
                new_output_model_id c number p pass_cfg input_model_id accelerator_spec;
              output_model_path = ''models/'' @ output_model_id @ ''/output_model''
          in case mkdir (writable c) ''models'' output_model_id (model_cache s1) of
               Inl e \<Rightarrow> (Inl e, s1)
             | Inr files \<Rightarrow>
                 (let s2 = s1\<lparr>model_cache := files\<rparr>;
                      produced =
                        (if \<not> validate_search_point p pass_search_point \<and> \<not> no_search s2
                         then (Inr PRUNED_CONFIG, s2)
                         else (case host_for_pass s2 pass_id of
                                 Inl e \<Rightarrow> (Inl e, s2)
                               | Inr h \<Rightarrow>
                                   (case (if system_type h \<noteq> AzureML
                                          then prepare_non_local_model c input_model
                                          else Inr input_model) of
                                      Inl e \<Rightarrow> (Inl e, s2)
                                    | Inr input_model' \<Rightarrow>
                                        try_run_pass h p input_model' output_model_path
                                          pass_search_point s2)))
                  in case produced of
                       (Inl e, s3) \<Rightarrow> (Inl e, s3)
                     | (Inr output_model, s3) \<Rightarrow>
                         (Inr (output_model, output_model_id),
                          record_run accelerator_spec output_model_id output_model
                            input_model_id pass_name pass_cfg
                            (cache_run c pass_name pass_cfg input_model_id output_model_id
                               run_accel
                               (cache_model c output_model output_model_id s3))))))"

text \<open>\<open>_run_pass\<close>: the cache is probed first (lines 841 to 863).\<close>

definition engine_run_pass ::
  "collaborators \<Rightarrow> string \<Rightarrow> json \<Rightarrow> model option \<Rightarrow> string \<Rightarrow> AcceleratorSpec \<Rightarrow>
   engine \<Rightarrow> (exn + model \<times> string) \<times> engine" where
  "engine_run_pass c pass_id pass_search_point input_model input_model_id accelerator_spec s =
     (case map_of (passes s) pass_id of
        None \<Rightarrow> (Inl KeyError, s)
      | Some item \<Rightarrow>
          (let p = item_pass item;
               pass_name = class_name p;
               pass_cfg = serialize_config p (config_at_search_point p pass_search_point);
               run_accel = run_accel_of p accelerator_spec
           in case load_run c input_model_id pass_name pass_cfg run_accel s of
                (None, s1) \<Rightarrow>
                  run_pass_uncached c pass_id p pass_search_point pass_cfg input_model
                    input_model_id accelerator_spec s1
              | (Some output_model_id, s1) \<Rightarrow>
                  (case load_model output_model_id s1 of
                     (Some output_model, s2) \<Rightarrow>
                       (Inr (output_model, output_model_id),
                        record_run accelerator_spec output_model_id output_model input_model_id
                          pass_name pass_cfg s2)
                   | (None, s2) \<Rightarrow>
                       run_pass_uncached c pass_id p pass_search_point pass_cfg input_model
                         input_model_id accelerator_spec s2)))"



subsection \<open>Concrete inputs\<close>

text \<open>
  A pass without search space, a local system whose passes and evaluations succeed,
  collaborators under which every path can be written, and an engine in no-search mode
  with that pass registered. The model cache already holds the output of a model number 3
  and a leftover output directory of a model number 5 that has no sidecar.
\<close>

definition example_pass :: Pass where
  "example_pass =
     \<lparr>class_name = ''OnnxConversion'', search_space = [],
      validate_search_point = (\<lambda>point. True),
      config_at_search_point = (\<lambda>point. point),
      serialize_config = (\<lambda>cfg. cfg),
      is_accelerator_agnostic = (\<lambda>a. True)\<rparr>"

definition example_signal :: MetricResult where
  "example_signal =
     [(''accuracy-accuracy_score'',
       \<lparr>result_value = 9 / 10, result_priority = 1, result_higher_is_better = True\<rparr>)]"

definition example_system :: OliveSystem where
  "example_system =
     \<lparr>system_type = Local, accelerators = Some [''cpu''],
      get_supported_execution_providers = [''CPUExecutionProvider''],
      run_pass = (\<lambda>p m path point. Inr (OliveModel (JObject [(''model_path'', JString path)]))),
      evaluate_model = (\<lambda>m ms a. Inr example_signal)\<rparr>"

definition example_collaborators :: collaborators where
  "example_collaborators =
     \<lparr>hash_dict = (\<lambda>cfg. ''c0ffee''),
      joint_metric_key = (\<lambda>m t. m @ ''-'' @ t),
      writable = (\<lambda>path. True),
      is_non_local = (\<lambda>j. False),
      download_resource = (\<lambda>j. Inr j),
      clean_pass_run_cache = (\<lambda>name dirs. dirs),
      save_model = (\<lambda>model_number output_name. Inr (Some (JObject [(''type'', JString ''ONNXModel'')]))),
      first_step = (\<lambda>spaces model_id objectives.
         Inr (Some \<lparr>step_model_id = model_id, step_search_point = JObject [],
                    step_passes = map (\<lambda>sp. (fst sp, JObject [])) spaces\<rparr>))\<rparr>"

definition example_accelerator :: AcceleratorSpec where
  "example_accelerator = \<lparr>accelerator_type = ''cpu'', execution_provider = ''CPUExecutionProvider''\<rparr>"

definition example_engine :: engine where
  "example_engine =
     \<lparr>clean_cache = False, clean_evaluation_cache = False, no_search = True,
      host = example_system, target = example_system, evaluator_config = None,
      pass_config = [],
      passes = [(''OnnxConversion'',
                 \<lparr>item_pass = example_pass, item_host = None, item_evaluator = None,
                  item_output_name = None\<rparr>)],
      pass_search_spaces = [(''OnnxConversion'', [])],
      new_model_number = 0, initialized = False, footprints = [],
      model_cache = [(''3_OnnxConversion-abc-c0ffee'', Directory),
                     (''3_OnnxConversion-abc-c0ffee.json'', Content (JObject [(''type'', JString ''ONNXModel'')])),
                     (''5_OnnxConversion-abc-c0ffee'', Directory)],
      run_cache = [], evaluation_cache = [], output_dir = [],
      logged = [], host_calls = [], target_calls = [], saved_models = []\<rparr>"



definition example_input_model :: "model option" where
  "example_input_model = Some (OliveModel (JObject [(''type'', JString ''PyTorchModel'')]))"

text \<open>Collaborators under which the run cache cannot be written, the rest as before.\<close>

definition read_only_runs :: collaborators where
  "read_only_runs = example_collaborators\<lparr>writable := (\<lambda>path. startswith path ''models/'')\<rparr>"

text \<open>
  The path of the run JSON that \<open>_run_pass\<close> probes and writes for a pass, a search
  point, an input model id and an accelerator spec (lines 845 to 850).
\<close>

definition probed_run_json_path ::
  "collaborators \<Rightarrow> Pass \<Rightarrow> json \<Rightarrow> string \<Rightarrow> AcceleratorSpec \<Rightarrow> string" where
  "probed_run_json_path c p pass_search_point input_model_id accelerator_spec =
     get_run_json_path c (class_name p) (split_first input_model_id)
       (serialize_config p (config_at_search_point p pass_search_point))
       (run_accel_of p accelerator_spec)"

text \<open>
  The attributes of the engine that a run only reads: two states with the same set-up
  differ at most in the cache, the model counter, the footprints and the records of what
  the engine did.
\<close>

definition same_setup :: "engine \<Rightarrow> engine \<Rightarrow> bool" where
  "same_setup s s' \<longleftrightarrow>
     passes s' = passes s \<and> no_search s' = no_search s \<and> host s' = host s
     \<and> target s' = target s \<and> evaluator_config s' = evaluator_config s
     \<and> pass_config s' = pass_config s \<and> pass_search_spaces s' = pass_search_spaces s"

text \<open>
  The rules of section 4.3 of the spec for one execution provider, in the spec's words:
  the devices are taken in the given order; a provider that the device does not support
  is rejected; \<open>CPUExecutionProvider\<close> is passed over for a non-CPU device when a CPU
  device is present; otherwise the provider is paired with the device; and a provider
  that was paired or rejected is not considered for later devices. The resolver is
  compared with this below.
\<close>

datatype provider_fate = Undecided | Rejected | Paired string

fun fate_of_provider :: "(string \<Rightarrow> string list) \<Rightarrow> bool \<Rightarrow> string list \<Rightarrow> string \<Rightarrow> provider_fate" where
  "fate_of_provider lookup is_cpu_available [] ep = Undecided"
| "fate_of_provider lookup is_cpu_available (device # devices) ep =
     (if ep \<notin> set (lookup device) then Rejected
      else if ep = CPUExecutionProvider \<and> device \<noteq> Device_CPU \<and> is_cpu_available
      then fate_of_provider lookup is_cpu_available devices ep
      else Paired device)"

text \<open>The loop state agrees with the fates of the providers over the devices done.\<close>

definition fate_inv ::
  "(string \<Rightarrow> string list) \<Rightarrow> bool \<Rightarrow> string list \<Rightarrow> string list \<Rightarrow> resolver_state \<Rightarrow> bool" where
  "fate_inv lookup cpu eps done st = (case st of (ns, pr, specs) \<Rightarrow>
     (\<forall>ep\<in>set eps.
        (case fate_of_provider lookup cpu done ep of
           Undecided \<Rightarrow> ep \<notin> pr \<and> ep \<notin> execution_provider ` set specs
         | Rejected \<Rightarrow> ep \<in> pr \<and> ep \<notin> execution_provider ` set specs
         | Paired d \<Rightarrow> ep \<in> pr \<and> \<lparr>accelerator_type = d, execution_provider = ep\<rparr> \<in> set specs
                        \<and> (\<forall>s\<in>set specs. execution_provider s = ep \<longrightarrow> accelerator_type s = d))))"

text \<open>One execution of the registered pass on the input model \<open>abc\<close>, and what it returns
  in the engine above.\<close>

definition example_run :: "collaborators \<Rightarrow> engine \<Rightarrow> (exn + model \<times> string) \<times> engine" where
  "example_run c s =
     engine_run_pass c ''OnnxConversion'' (JObject []) example_input_model ''abc''
       example_accelerator s"

definition example_output_model :: "string \<Rightarrow> model" where
  "example_output_model output_model_id =
     OliveModel (JObject [(''model_path'', JString (''models/'' @ output_model_id @ ''/output_model''))])"

subsection \<open>Goals (resolve_goals, lines 562 to 630)\<close>

text \<open>
  Modelled from the spec: \<open>Metric.get_sub_type_info\<close> (olive.evaluator.metric) is not part
  of engine.py. It returns a dictionary from the names of the sub-metrics to the chosen
  attribute of each; as the comment at its call says (line 573), and as the spec has it
  (only sub-metrics with \<open>priority > 0\<close> become objectives), sub-metrics whose priority
  is not positive are left out. A dictionary is an association list in insertion order,
  and an assignment to a key that is present keeps its place.
\<close>

definition get_sub_type_info :: "(SubType \<Rightarrow> 'a) \<Rightarrow> Metric \<Rightarrow> (string \<times> 'a) list" where
  "get_sub_type_info info metric =
     fold (\<lambda>sub_type d.
             if priority sub_type \<le> 0 then d
             else AList.update (sub_type_name sub_type) (info sub_type) d)
       (sub_types metric) []"

text \<open>The dictionaries \<open>goals\<close> and \<open>multipliers\<close> of the first loop (lines 570 to 578).\<close>

definition goals_of :: "Metric list \<Rightarrow> (string \<times> (string \<times> Goal option) list) list" where
  "goals_of ms = fold (\<lambda>metric d. AList.update (metric_name metric) (get_sub_type_info goal metric) d) ms []"

definition multipliers_of :: "Metric list \<Rightarrow> (string \<times> (string \<times> int) list) list" where
  "multipliers_of ms =
     fold (\<lambda>metric d.
             AList.update (metric_name metric)
               (get_sub_type_info (\<lambda>sub_type. if higher_is_better sub_type then 1 else - 1) metric) d)
       ms []"

text \<open>
  The inner loop of lines 585 to 595 over the goals of one metric: it stops at the first
  sub-metric that has no goal, and otherwise at the first goal that is not a threshold,
  which is the one that asks for the baseline.
\<close>

fun asks_for_baseline :: "Goal option list \<Rightarrow> bool" where
  "asks_for_baseline [] = False"
| "asks_for_baseline (None # sub_goals) = False"
| "asks_for_baseline (Some sub_goal # sub_goals) =
     (if goal_type sub_goal \<noteq> ''threshold'' then True else asks_for_baseline sub_goals)"

text \<open>
  The outer loop (lines 583 to 597) evaluates the baseline at most once, at the first
  metric whose inner loop asks for it.
\<close>

definition baseline_needed :: "(string \<times> (string \<times> Goal option) list) list \<Rightarrow> bool" where
  "baseline_needed goals = list_ex (\<lambda>goal. asks_for_baseline (map snd (snd goal))) goals"

text \<open>The five kinds of goal (lines 612 to 621); any other kind leaves the value \<open>None\<close>.\<close>

definition resolved_goal_value :: "Goal \<Rightarrow> real \<Rightarrow> int \<Rightarrow> real option" where
  "resolved_goal_value g baseline_sub_type multiplier =
     (if goal_type g = ''threshold'' then Some (goal_value g)
      else if goal_type g = ''max-degradation'' then
        Some (baseline_sub_type - of_int multiplier * goal_value g)
      else if goal_type g = ''min-improvement'' then
        Some (baseline_sub_type + of_int multiplier * goal_value g)
      else if goal_type g = ''percent-max-degradation'' then
        Some (baseline_sub_type * (1 - of_int multiplier * goal_value g / 100))
      else if goal_type g = ''percent-min-improvement'' then
        Some (baseline_sub_type * (1 + of_int multiplier * goal_value g / 100))
      else None)"

text \<open>
  The inner loop of lines 606 to 623 for one metric. \<open>baseline.get_value\<close> indexes the
  result by the joint key, \<open>multipliers[metric_name][sub_type_name]\<close> indexes a
  dictionary, and \<open>goal.type\<close> of a sub-metric that has no goal is an attribute of \<open>None\<close>.
\<close>

fun resolve_sub_type_goals ::
  "collaborators \<Rightarrow> MetricResult \<Rightarrow> (string \<times> int) list \<Rightarrow> string \<Rightarrow>
   (string \<times> Goal option) list \<Rightarrow> (string \<times> real option) list \<Rightarrow>
   exn + (string \<times> real option) list" where
  "resolve_sub_type_goals c baseline ms name [] resolved_goals = Inr resolved_goals"
| "resolve_sub_type_goals c baseline ms name ((sub_name, g) # rest) resolved_goals =
     (case map_of baseline (joint_metric_key c name sub_name) of
        None \<Rightarrow> Inl KeyError
      | Some baseline_sub_type \<Rightarrow>
          (case map_of ms sub_name of
             None \<Rightarrow> Inl KeyError
           | Some multiplier \<Rightarrow>
               (case g of
                  None \<Rightarrow> Inl AttributeError
                | Some g' \<Rightarrow>
                    resolve_sub_type_goals c baseline ms name rest
                      (AList.update (joint_metric_key c name sub_name)
                         (resolved_goal_value g' (result_value baseline_sub_type) multiplier)
                         resolved_goals))))"

text \<open>The outer loop of lines 605 to 623.\<close>

fun resolve_metric_goals ::
  "collaborators \<Rightarrow> MetricResult \<Rightarrow> (string \<times> (string \<times> int) list) list \<Rightarrow>
   (string \<times> (string \<times> Goal option) list) list \<Rightarrow> (string \<times> real option) list \<Rightarrow>
   exn + (string \<times> real option) list" where
  "resolve_metric_goals c baseline multipliers [] resolved_goals = Inr resolved_goals"
| "resolve_metric_goals c baseline multipliers ((name, sub_type_goals) # rest) resolved_goals =
     (case resolve_sub_type_goals c baseline
             (case map_of multipliers name of Some ms \<Rightarrow> ms | None \<Rightarrow> [])
             name sub_type_goals resolved_goals of
        Inl e \<Rightarrow> Inl e
      | Inr resolved_goals' \<Rightarrow> resolve_metric_goals c baseline multipliers rest resolved_goals')"

text \<open>
  \<open>resolve_goals\<close>. The assertion of line 589 guards the baseline evaluation. A
  \<open>MetricResult\<close> is false when it is empty, as a dictionary is, and so is the baseline
  \<open>None\<close> that is left when no goal asked for it (line 598).
\<close>

definition resolve_goals ::
  "collaborators \<Rightarrow> model option \<Rightarrow> string \<Rightarrow> Metric list \<Rightarrow> AcceleratorSpec \<Rightarrow> engine \<Rightarrow>
   (exn + (string \<times> real option) list) \<times> engine" where
  "resolve_goals c input_model input_model_id ms accelerator_spec s =
     (let goals = goals_of ms;
          multipliers = multipliers_of ms
      in if baseline_needed goals then
           (case evaluator_config s of
              None \<Rightarrow> (Inl AssertionError, s)
            | Some evaluator \<Rightarrow>
                (case engine_evaluate_model c input_model input_model_id (evaluator_config s)
                        accelerator_spec s of
                   (Inl e, s1) \<Rightarrow> (Inl e, s1)
                 | (Inr baseline, s1) \<Rightarrow>
                     if baseline = [] then (Inr [], s1)
                     else (resolve_metric_goals c baseline multipliers goals [], s1)))
         else (Inr [], s))"

text \<open>
  An accuracy metric with one sub-metric of priority 1, higher is better, with a given goal;
  an evaluator of that metric, and an engine whose target measures an accuracy of 0.80.
\<close>

definition accuracy_metric :: "Goal option \<Rightarrow> Metric" where
  "accuracy_metric g =
     \<lparr>metric_name = ''accuracy'',
      sub_types = [\<lparr>sub_type_name = ''accuracy_score'', priority = 1, higher_is_better = True,
                    goal = g\<rparr>]\<rparr>"

definition baseline_signal :: MetricResult where
  "baseline_signal =
     [(''accuracy-accuracy_score'',
       \<lparr>result_value = 80 / 100, result_priority = 1, result_higher_is_better = True\<rparr>)]"

definition evaluating_engine :: "Goal option \<Rightarrow> engine" where
  "evaluating_engine g =
     example_engine
       \<lparr>target := example_system\<lparr>evaluate_model := (\<lambda>m ms a. Inr baseline_signal)\<rparr>,
        evaluator_config := Some \<lparr>metrics = [accuracy_metric g]\<rparr>\<rparr>"


text \<open>Two goals for the accuracy: a threshold of 0.9 and a maximal degradation of 0.05.\<close>

definition threshold_goal :: Goal where
  "threshold_goal = \<lparr>goal_type = ''threshold'', goal_value = 9 / 10\<rparr>"


subsection \<open>Registering passes (register_pass and setup_passes, lines 219 to 359)\<close>

text \<open>
  The name that \<open>register_pass\<close> gives to a pass registered without one: the class name,
  then the class name with \<open>_1\<close>, \<open>_2\<close> and so on, the first that is not registered.
\<close>

definition numbered_name :: "string \<Rightarrow> nat \<Rightarrow> string" where
  "numbered_name cls i = (if 0 < i then cls @ ''_'' @ str_nat i else cls)"

function unused_name :: "string \<Rightarrow> string list \<Rightarrow> nat \<Rightarrow> string" where
  "unused_name cls names i =
     (if numbered_name cls i \<notin> set names then numbered_name cls i
      else unused_name cls names (i + 1))"
  by pat_completeness auto

text \<open>
  \<open>register_pass\<close>. \<open>p.search_space()\<close> is the field \<open>search_space\<close> of the pass. The
  message about an ignored \<open>output_name\<close> is logged at debug level.
\<close>

definition register_pass ::
  "Pass \<Rightarrow> string option \<Rightarrow> OliveSystem option \<Rightarrow> OliveEvaluatorConfig option \<Rightarrow> string option \<Rightarrow>
   engine \<Rightarrow> (exn + unit) \<times> engine" where
  "register_pass p name h evaluator output_name s =
     (case (case name of
              Some n \<Rightarrow> if n \<in> set (map fst (passes s)) then Inl AssertionError else Inr n
            | None \<Rightarrow> Inr (unused_name (class_name p) (map fst (passes s)) 0)) of
        Inl e \<Rightarrow> (Inl e, s)
      | Inr n \<Rightarrow>
          if no_search s \<and> 0 < length (search_space p) then (Inl ValueError, s)
          else (Inr (),
                s\<lparr>passes := AList.update n
                     \<lparr>item_pass = p, item_host = h, item_evaluator = evaluator,
                      item_output_name = output_name\<rparr> (passes s)\<rparr>))"

text \<open>
  \<open>setup_passes\<close>: the loop over \<open>self.pass_config.values()\<close>, in which the class
  method \<open>generate_search_space\<close>, the constructor of the pass and \<open>register_pass\<close> may
  raise, then the list of the search spaces.
\<close>

fun setup_passes_loop ::
  "AcceleratorSpec \<Rightarrow> pass_descriptor list \<Rightarrow> engine \<Rightarrow> (exn + unit) \<times> engine" where
  "setup_passes_loop accelerator_spec [] s = (Inr (), s)"
| "setup_passes_loop accelerator_spec (config # rest) s =
     (case generate_search_space (descriptor_type config) accelerator_spec
             (descriptor_config config) (descriptor_disable_search config) of
        Inl e \<Rightarrow> (Inl e, s)
      | Inr pass_cfg \<Rightarrow>
          (case construct (descriptor_type config) accelerator_spec pass_cfg
                  (descriptor_disable_search config) of
             Inl e \<Rightarrow> (Inl e, s)
           | Inr p \<Rightarrow>
               (case register_pass p None (descriptor_host config) (descriptor_evaluator config)
                       (descriptor_output_name config) s of
                  (Inl e, s1) \<Rightarrow> (Inl e, s1)
                | (Inr u, s1) \<Rightarrow> setup_passes_loop accelerator_spec rest s1)))"

definition setup_passes :: "AcceleratorSpec \<Rightarrow> engine \<Rightarrow> (exn + unit) \<times> engine" where
  "setup_passes accelerator_spec s =
     (case setup_passes_loop accelerator_spec (map snd (pass_config s)) (s\<lparr>passes := []\<rparr>) of
        (Inl e, s1) \<Rightarrow> (Inl e, s1)
      | (Inr u, s1) \<Rightarrow>
          (Inr (),
           s1\<lparr>pass_search_spaces :=
                map (\<lambda>entry. (fst entry, search_space (item_pass (snd entry)))) (passes s1)\<rparr>))"

subsection \<open>Objectives (resolve_objectives, lines 533 to 559)\<close>




subsection \<open>A run without search (run_no_search, lines 361 to 445)\<close>













text \<open>The invariant of the two loops, on the loop state.\<close>

definition resolver_inv :: "string list \<Rightarrow> bool \<Rightarrow> resolver_state \<Rightarrow> bool" where
  "resolver_inv eps cpu st = (case st of (ns, pr, specs) \<Rightarrow>
      execution_provider ` set specs \<subseteq> pr
    \<and> (\<forall>s1\<in>set specs. \<forall>s2\<in>set specs. execution_provider s1 = execution_provider s2 \<longrightarrow> accelerator_type s1 = accelerator_type s2)
    \<and> (distinct eps \<longrightarrow> distinct (map execution_provider specs))
    \<and> (cpu \<longrightarrow> (\<forall>s\<in>set specs. execution_provider s = CPUExecutionProvider \<longrightarrow> accelerator_type s = Device_CPU)))"

section \<open>Properties\<close>

subsection \<open>Strings of integers and file names\<close>

lemma digit_lt10_cases:
  "d < 10 \<Longrightarrow> d = 0 \<or> d = 1 \<or> d = 2 \<or> d = 3 \<or> d = 4 \<or> d = 5 \<or> d = 6 \<or> d = 7 \<or> d = 8 \<or> d = (9::nat)"
  by arith

lemma digit_val_digit_char: "d < 10 \<Longrightarrow> digit_val (digit_char d) = Some d"
  by (drule digit_lt10_cases) (auto simp: digit_val_def digit_char_def)

lemma digit_char_inj: "d < 10 \<Longrightarrow> e < 10 \<Longrightarrow> digit_char d = digit_char e \<Longrightarrow> d = e"
  by (metis digit_val_digit_char option.inject)

lemma digit_char_is_digit: "d < 10 \<Longrightarrow> digit_char d \<in> set ''0123456789''"
  by (drule digit_lt10_cases) (auto simp: digit_char_def)

lemma str_nat_digits: "set (str_nat n) \<subseteq> set ''0123456789''"
proof (induction n rule: str_nat.induct)
  case (1 n)
  show ?case
  proof (cases "n < 10")
    case True
    then show ?thesis using digit_char_is_digit[of n] by (subst str_nat.simps) simp
  next
    case False
    have "n mod 10 < 10" by simp
    then show ?thesis using 1[OF False] False digit_char_is_digit[of "n mod 10"]
      by (subst str_nat.simps) simp
  qed
qed

lemma str_nat_nonempty: "str_nat n \<noteq> []"
  by (subst str_nat.simps) simp

lemma str_nat_inj: "str_nat n = str_nat m \<Longrightarrow> n = m"
proof (induction n arbitrary: m rule: str_nat.induct)
  case (1 n)
  show ?case
  proof (cases "n < 10")
    case n: True
    show ?thesis
    proof (cases "m < 10")
      case True
      then show ?thesis using n "1.prems" digit_char_inj[of n m]
        by (simp add: str_nat.simps[of n] str_nat.simps[of m])
    next
      case False
      then show ?thesis using n "1.prems" str_nat_nonempty[of "m div 10"]
        by (simp add: str_nat.simps[of n] str_nat.simps[of m])
    qed
  next
    case n: False
    show ?thesis
    proof (cases "m < 10")
      case True
      then show ?thesis using n "1.prems" str_nat_nonempty[of "n div 10"]
        by (simp add: str_nat.simps[of n] str_nat.simps[of m])
    next
      case False
      from n False "1.prems" have eq: "str_nat (n div 10) = str_nat (m div 10)"
        and dg: "digit_char (n mod 10) = digit_char (m mod 10)"
        by (simp_all add: str_nat.simps[of n] str_nat.simps[of m])
      have "n div 10 = m div 10" using "1.IH"[OF n eq] .
      moreover have "n mod 10 = m mod 10" using digit_char_inj[OF _ _ dg] by simp
      ultimately show ?thesis by (metis div_mult_mod_eq)
    qed
  qed
qed

lemma digits_acc_snoc:
  "digits_acc a (xs @ [c]) =
     (case digits_acc a xs of None \<Rightarrow> None
      | Some v \<Rightarrow> (case digit_val c of None \<Rightarrow> None | Some d \<Rightarrow> Some (10 * v + d)))"
  by (induction xs arbitrary: a) (auto split: option.splits)

lemma digits_acc_str_nat: "digits_acc 0 (str_nat n) = Some n"
proof (induction n rule: str_nat.induct)
  case (1 n)
  show ?case
  proof (cases "n < 10")
    case True
    then show ?thesis by (subst str_nat.simps) (simp add: digit_val_digit_char)
  next
    case False
    have "n mod 10 < 10" by simp
    then show ?thesis using 1[OF False] False
      by (subst str_nat.simps) (simp add: digits_acc_snoc digit_val_digit_char)
  qed
qed

lemma digits_value_str_nat: "digits_value (str_nat n) = Some n"
  by (simp add: digits_value_def str_nat_nonempty digits_acc_str_nat)

lemma str_nat_no_underscore: "CHR ''_'' \<notin> set (str_nat n)"
  using str_nat_digits[of n] by auto

lemma str_nat_no_dot: "CHR ''.'' \<notin> set (str_nat n)"
  using str_nat_digits[of n] by auto

lemma str_int_no_underscore: "CHR ''_'' \<notin> set (str_int i)"
  using str_nat_no_underscore by (simp add: str_int_def)

lemma str_int_no_dot: "CHR ''.'' \<notin> set (str_int i)"
  using str_nat_no_dot by (simp add: str_int_def)

lemma str_nat_no_minus: "CHR ''-'' \<notin> set (str_nat n)"
  using str_nat_digits[of n] by auto

lemma str_int_inj: "str_int i = str_int j \<Longrightarrow> i = j"
proof -
  assume eq: "str_int i = str_int j"
  have hd_nat: "\<And>n. hd (str_nat n) \<noteq> CHR ''-''"
    using str_nat_no_minus str_nat_nonempty by (metis list.set_sel(1))
  show ?thesis
  proof (cases "i < 0")
    case i: True
    show ?thesis
    proof (cases "j < 0")
      case True
      then have "nat (- i) = nat (- j)" using eq i str_nat_inj by (simp add: str_int_def)
      then show ?thesis using i True by simp
    next
      case False
      then have "str_nat (nat j) = CHR ''-'' # str_nat (nat (- i))"
        using eq i by (simp add: str_int_def)
      then have "hd (str_nat (nat j)) = CHR ''-''" by simp
      then show ?thesis using hd_nat[of "nat j"] by simp
    qed
  next
    case i: False
    show ?thesis
    proof (cases "j < 0")
      case True
      then have "str_nat (nat i) = CHR ''-'' # str_nat (nat (- j))"
        using eq i by (simp add: str_int_def)
      then have "hd (str_nat (nat i)) = CHR ''-''" by simp
      then show ?thesis using hd_nat[of "nat i"] by simp
    next
      case False
      then have "nat i = nat j" using eq i str_nat_inj by (simp add: str_int_def)
      then show ?thesis using i False by simp
    qed
  qed
qed


lemma str_nat_no_space: "\<not> is_space c" if "c \<in> set (str_nat n)"
  using that str_nat_digits[of n] by (auto simp: is_space_def)

lemma strip_id: "s \<noteq> [] \<Longrightarrow> \<not> is_space (hd s) \<Longrightarrow> \<not> is_space (last s) \<Longrightarrow> strip s = s"
proof -
  assume a: "s \<noteq> []" "\<not> is_space (hd s)" "\<not> is_space (last s)"
  have 1: "dropWhile is_space s = s" using a(1,2) by (cases s) auto
  have "s = butlast s @ [last s]" using a(1) by simp
  then have r: "rev s = last s # rev (butlast s)" by (metis rev.simps(2) rev_rev_ident rev_swap)
  have "dropWhile is_space (last s # rev (butlast s)) = last s # rev (butlast s)"
    using a(3) by simp
  then have 2: "dropWhile is_space (rev s) = rev s" by (simp only: r)
  show ?thesis by (simp add: strip_def 1 2)
qed

lemma py_int_str_int: "py_int (str_int i) = Some i"
proof (cases "i < 0")
  case True
  let ?n = "nat (- i)"
  have ne: "str_nat ?n \<noteq> []" by (rule str_nat_nonempty)
  have "last (CHR ''-'' # str_nat ?n) = last (str_nat ?n)" using ne by simp
  moreover have "last (str_nat ?n) \<in> set (str_nat ?n)" using ne by simp
  ultimately have "\<not> is_space (last (CHR ''-'' # str_nat ?n))" using str_nat_no_space by metis
  moreover have "\<not> is_space (CHR ''-'')" by (simp add: is_space_def)
  ultimately have "strip (CHR ''-'' # str_nat ?n) = CHR ''-'' # str_nat ?n"
    by (intro strip_id) simp_all
  then show ?thesis using True by (simp add: py_int_def str_int_def digits_value_str_nat)
next
  case False
  let ?n = "nat i"
  obtain c r where cr: "str_nat ?n = c # r" using str_nat_nonempty[of ?n] by (cases "str_nat ?n") auto
  have cin: "c \<in> set (str_nat ?n)" using cr by simp
  have c1: "c \<noteq> CHR ''-''" using cin str_nat_no_minus by metis
  have c2: "c \<noteq> CHR ''+''" using cin str_nat_digits[of ?n] by auto
  have "last (str_nat ?n) \<in> set (str_nat ?n)" using cr by simp
  then have "\<not> is_space (last (str_nat ?n))" using str_nat_no_space by metis
  moreover have "\<not> is_space (hd (str_nat ?n))" using cin cr str_nat_no_space by (metis list.sel(1))
  ultimately have "strip (str_nat ?n) = c # r" using cr by (metis strip_id list.distinct(1))
  moreover have "digits_value (c # r) = Some ?n" using digits_value_str_nat[of ?n] cr by simp
  ultimately show ?thesis using False c1 c2 by (simp add: py_int_def str_int_def)
qed

lemma takeWhile_sep: "x \<notin> set a \<Longrightarrow> takeWhile (\<lambda>c. c \<noteq> x) (a @ x # rest) = a"
  by (induction a) auto

lemma startswith_split:
  assumes "startswith s (a @ [x])" and "x \<notin> set a"
  shows "takeWhile (\<lambda>c. c \<noteq> x) s = a" and "\<exists>rest. s = a @ x # rest"
proof -
  from assms(1) have "take (length (a @ [x])) s = a @ [x]" by (simp add: startswith_def)
  then have s: "s = (a @ [x]) @ drop (length (a @ [x])) s" by (metis append_take_drop_id)
  then show "\<exists>rest. s = a @ x # rest" by (metis append.assoc append_Cons append_Nil)
  then obtain rest where "s = a @ x # rest" by blast
  then show "takeWhile (\<lambda>c. c \<noteq> x) s = a" using assms(2) by (simp add: takeWhile_sep)
qed

lemma split_first_glob: "startswith name (str_int n @ ''_'') \<Longrightarrow> split_first name = str_int n"
  using startswith_split(1)[of name "str_int n" "CHR ''_''"] str_int_no_underscore
  by (simp add: split_first_def)

lemma glob_number_unique:
  "startswith name (str_int n @ ''_'') \<Longrightarrow> startswith name (str_int m @ ''_'') \<Longrightarrow> n = m"
  using split_first_glob str_int_inj by metis

lemma stem_prefix:
  assumes "CHR ''.'' \<notin> set pre" and "CHR ''_'' \<notin> set pre"
  shows "split_first (stem (pre @ CHR ''_'' # rest)) = pre"
proof -
  let ?name = "pre @ CHR ''_'' # rest"
  let ?P = "\<lambda>c. c \<noteq> CHR ''.''"
  have whole: "split_first ?name = pre" using assms(2) by (simp add: split_first_def takeWhile_sep)
  show ?thesis
  proof (cases "stem ?name = ?name")
    case True
    then show ?thesis using whole by simp
  next
    case False
    then have dot: "CHR ''.'' \<in> set ?name"
      and st: "stem ?name = rev (tl (dropWhile ?P (rev ?name)))"
      by (auto simp: stem_def Let_def split: if_splits)
    define e where "e = takeWhile ?P (rev ?name)"
    define t where "t = dropWhile ?P (rev ?name)"
    have "t \<noteq> []" using dot unfolding t_def by (simp add: dropWhile_eq_Nil_conv) blast
    moreover have "hd t = CHR ''.''" using \<open>t \<noteq> []\<close> hd_dropWhile[of ?P "rev ?name"] unfolding t_def by simp
    ultimately obtain t' where t': "t = CHR ''.'' # t'" by (cases t) auto
    have "rev ?name = e @ t" unfolding e_def t_def by simp
    then have "?name = rev t @ rev e" by (metis rev_append rev_rev_ident)
    then have nm: "pre @ CHR ''_'' # rest = rev t' @ CHR ''.'' # rev e" using t' by simp
    have base: "stem ?name = rev t'" using st t' unfolding t_def by simp
    from nm obtain us where
      "(pre = rev t' @ us \<and> us @ CHR ''_'' # rest = CHR ''.'' # rev e) \<or>
       (pre @ us = rev t' \<and> CHR ''_'' # rest = us @ CHR ''.'' # rev e)"
      by (auto simp: append_eq_append_conv2)
    then show ?thesis
    proof
      assume c: "pre = rev t' @ us \<and> us @ CHR ''_'' # rest = CHR ''.'' # rev e"
      show ?thesis
      proof (cases us)
        case Nil then show ?thesis using c by simp
      next
        case (Cons u us')
        then have "u = CHR ''.''" using c by simp
        then have "CHR ''.'' \<in> set pre" using c Cons by simp
        then show ?thesis using assms(1) by simp
      qed
    next
      assume c: "pre @ us = rev t' \<and> CHR ''_'' # rest = us @ CHR ''.'' # rev e"
      show ?thesis
      proof (cases us)
        case Nil then show ?thesis using c by simp
      next
        case (Cons u us')
        then have "u = CHR ''_''" using c by simp
        then have "stem ?name = pre @ CHR ''_'' # us'" using c Cons base by simp
        then show ?thesis using assms(2) by (simp add: split_first_def takeWhile_sep)
      qed
    qed
  qed
qed

lemma split_first_stem_glob:
  assumes "startswith name (str_int n @ ''_'')"
  shows "split_first (stem name) = str_int n"
proof -
  from startswith_split(2)[of name "str_int n" "CHR ''_''"] assms str_int_no_underscore
  obtain rest where "name = str_int n @ CHR ''_'' # rest" by auto
  then show ?thesis using stem_prefix[OF str_int_no_dot str_int_no_underscore] by simp
qed

subsection \<open>Model numbers\<close>

text \<open>The loop of \<open>_get_new_model_number\<close> terminates: the entries of the directory that
  match a number from the counter on become fewer.\<close>

lemma length_filter_le_mono:
  "(\<And>x. x \<in> set xs \<Longrightarrow> Q x \<Longrightarrow> P x) \<Longrightarrow> length (filter Q xs) \<le> length (filter P xs)"
  by (induction xs) auto

lemma length_filter_less_mono:
  assumes "\<And>x. x \<in> set xs \<Longrightarrow> Q x \<Longrightarrow> P x" and "x \<in> set xs" and "P x" and "\<not> Q x"
  shows "length (filter Q xs) < length (filter P xs)"
  using assms
proof (induction xs)
  case Nil
  then show ?case by simp
next
  case (Cons y ys)
  have le: "length (filter Q ys) \<le> length (filter P ys)"
    using Cons.prems(1) by (intro length_filter_le_mono) auto
  show ?case
  proof (cases "x = y")
    case True
    then show ?thesis using Cons.prems(3,4) le by simp
  next
    case False
    then have "x \<in> set ys" using Cons.prems(2) by simp
    then have "length (filter Q ys) < length (filter P ys)"
      using Cons.IH Cons.prems by auto
    then show ?thesis using Cons.prems(1)[of y] by auto
  qed
qed

termination get_new_model_number_loop
proof (relation "measure (\<lambda>(names, counter).
         length (filter (\<lambda>name. \<exists>n\<ge>counter. startswith name (str_int n @ ''_'')) names))")
  show "wf (measure (\<lambda>(names, counter).
         length (filter (\<lambda>name. \<exists>n\<ge>counter. startswith name (str_int n @ ''_'')) names)))"
    by simp
next
  fix names :: "string list" and counter :: int
  assume "glob_number counter names \<noteq> []"
  then obtain name where nm: "name \<in> set names" "startswith name (str_int counter @ ''_'')"
    unfolding glob_number_def by (metis filter_False)
  have "\<not> (\<exists>n\<ge>counter + 1. startswith name (str_int n @ ''_''))"
    using glob_number_unique[OF nm(2)] by fastforce
  moreover have "\<exists>n\<ge>counter. startswith name (str_int n @ ''_'')"
    using nm(2) by (intro exI[of _ counter]) simp
  moreover have "\<And>x. (\<exists>n\<ge>counter + 1. startswith x (str_int n @ ''_'')) \<Longrightarrow>
                     (\<exists>n\<ge>counter. startswith x (str_int n @ ''_''))"
  proof -
    fix x assume "\<exists>n\<ge>counter + 1. startswith x (str_int n @ ''_'')"
    then obtain n where "counter + 1 \<le> n" "startswith x (str_int n @ ''_'')" by blast
    then have "counter \<le> n \<and> startswith x (str_int n @ ''_'')" by simp
    then show "\<exists>n\<ge>counter. startswith x (str_int n @ ''_'')" by blast
  qed
  ultimately have "length (filter (\<lambda>name. \<exists>n\<ge>counter + 1. startswith name (str_int n @ ''_'')) names)
           < length (filter (\<lambda>name. \<exists>n\<ge>counter. startswith name (str_int n @ ''_'')) names)"
    using nm(1) by (intro length_filter_less_mono[of names _ _ name]) blast+
  then show "((names, counter + 1), names, counter) \<in> measure (\<lambda>(names, counter).
         length (filter (\<lambda>name. \<exists>n\<ge>counter. startswith name (str_int n @ ''_'')) names))"
    by simp
qed

declare get_new_model_number_loop.simps [simp del]

lemma get_new_model_number_loop_spec:
  "get_new_model_number_loop names counter = (n, counter') \<Longrightarrow>
     counter \<le> n \<and> counter' = n + 1 \<and> glob_number n names = []"
proof (induction names counter rule: get_new_model_number_loop.induct)
  case (1 names counter)
  show ?case
  proof (cases "glob_number counter names = []")
    case True
    then show ?thesis using "1.prems" by (simp add: get_new_model_number_loop.simps[of names counter])
  next
    case False
    then have "get_new_model_number_loop names (counter + 1) = (n, counter')"
      using "1.prems" by (simp add: get_new_model_number_loop.simps[of names counter])
    from "1.IH"[OF False this] show ?thesis by simp
  qed
qed

lemma those_map_Some:
  "those (map f xs) = Some ys \<Longrightarrow> x \<in> set xs \<Longrightarrow> \<exists>y. f x = Some y \<and> y \<in> set ys"
proof (induction xs arbitrary: ys)
  case Nil
  then show ?case by simp
next
  case (Cons a xs)
  from Cons.prems(1) obtain b bs where b: "f a = Some b" "those (map f xs) = Some bs" "ys = b # bs"
    by (auto split: option.splits)
  show ?case
  proof (cases "x = a")
    case True
    then show ?thesis using b by simp
  next
    case False
    then have "x \<in> set xs" using Cons.prems(2) by simp
    from Cons.IH[OF b(2) this] show ?thesis using b(3) by auto
  qed
qed

lemma initial_model_number_above:
  assumes "initial_model_number names = Inr n0" and "glob_number k names \<noteq> []"
  shows "k < n0"
proof -
  from assms(2) obtain name where nm: "name \<in> set names" "startswith name (str_int k @ ''_'')"
    unfolding glob_number_def by (metis filter_False)
  from startswith_split(2)[of name "str_int k" "CHR ''_''"] nm(2) str_int_no_underscore
  have "CHR ''_'' \<in> set name" by auto
  then have in_files: "name \<in> set (glob_any_underscore names)"
    using nm(1) by (simp add: glob_any_underscore_def)
  then have ne: "glob_any_underscore names \<noteq> []" by auto
  from assms(1) ne obtain numbers where
    th: "those (map (\<lambda>model_file. py_int (split_first (stem model_file))) (glob_any_underscore names)) = Some numbers"
    and n0: "n0 = Max (set numbers) + 1"
    by (auto simp: initial_model_number_def Let_def split: option.splits)
  from those_map_Some[OF th in_files] obtain y where
    y: "py_int (split_first (stem name)) = Some y" "y \<in> set numbers" by blast
  have "y = k" using y(1) split_first_stem_glob[OF nm(2)] py_int_str_int by simp
  then have "k \<le> Max (set numbers)" using y(2) by simp
  then show ?thesis using n0 by simp
qed

lemma clean_run_caches_counter: "new_model_number (clean_run_caches c s) = new_model_number s"
proof -
  have "new_model_number (fold (\<lambda>pc st.
            if descriptor_clean_run_cache pc then
              (case clean_pass_run_cache c (type_name (descriptor_type pc))
                      (model_cache st, run_cache st, evaluation_cache st) of
                 (ms, rs, es) \<Rightarrow> st\<lparr>model_cache := ms, run_cache := rs, evaluation_cache := es\<rparr>)
            else st) pcs st0) = new_model_number st0" for pcs :: "pass_descriptor list" and st0 :: engine
    by (induction pcs arbitrary: st0) (auto split: prod.splits)
  then show ?thesis by (simp add: clean_run_caches_def)
qed

lemma initialize_counter:
  assumes "initialize c s = (Inr (), s0)"
  shows "initial_model_number (map fst (model_cache (clean_caches s))) = Inr (new_model_number s0)"
  using assms
  by (auto simp: initialize_def Let_def clean_run_caches_counter split: sum.splits)

lemma get_new_model_number_spec:
  assumes "get_new_model_number s = (n, s')"
  shows "new_model_number s \<le> n" "new_model_number s' = n + 1"
    "glob_number n (map fst (model_cache s)) = []" "s' = s\<lparr>new_model_number := n + 1\<rparr>"
proof -
  obtain n' c' where l: "get_new_model_number_loop (map fst (model_cache s)) (new_model_number s) = (n', c')"
    by (cases "get_new_model_number_loop (map fst (model_cache s)) (new_model_number s)") auto
  with assms have e: "n = n'" "s' = s\<lparr>new_model_number := c'\<rparr>"
    by (auto simp: get_new_model_number_def)
  from get_new_model_number_loop_spec[OF l] e
  show "new_model_number s \<le> n" "new_model_number s' = n + 1"
    "glob_number n (map fst (model_cache s)) = []" "s' = s\<lparr>new_model_number := n + 1\<rparr>"
    by simp_all
qed

text \<open>
  Claim C6. After \<open>initialize\<close> has returned, let the allocator be called in a state
  \<open>s1\<close> and again in a later state \<open>s2\<close> of the same run (the counter is only ever
  increased, so it is at least what the earlier call left). Then neither returned number
  has an entry \<open>models/<N>_*\<close> in the model cache at the time of its call, the second
  number is strictly greater than the first, and both are greater than every number that
  had an entry, file or directory, in the model cache when \<open>initialize\<close> scanned it.
\<close>

theorem model_numbers_fresh_and_increasing:
  assumes "initialize c s = (Inr (), s0)"
    and "new_model_number s0 \<le> new_model_number s1"
    and "get_new_model_number s1 = (n1, s1')"
    and "new_model_number s1' \<le> new_model_number s2"
    and "get_new_model_number s2 = (n2, s2')"
  shows "glob_number n1 (map fst (model_cache s1)) = []
       \<and> glob_number n2 (map fst (model_cache s2)) = []
       \<and> n1 < n2
       \<and> (\<forall>k. glob_number k (map fst (model_cache (clean_caches s))) \<noteq> [] \<longrightarrow> k < n1 \<and> k < n2)"
proof -
  note a = get_new_model_number_spec[OF assms(3)]
  note b = get_new_model_number_spec[OF assms(5)]
  have lt: "n1 < n2" using a(2) b(1) assms(4) by simp
  have above: "k < n1" if "glob_number k (map fst (model_cache (clean_caches s))) \<noteq> []" for k
    using initial_model_number_above[OF initialize_counter[OF assms(1)] that] assms(2) a(1) by simp
  show ?thesis using a(3) b(3) lt above by (meson less_trans)
qed


theorem model_numbers_fresh_and_increasing_witness:
  "fst (initialize example_collaborators example_engine) = Inr ()
   \<and> fst (get_new_model_number (snd (initialize example_collaborators example_engine))) = 6
   \<and> fst (get_new_model_number
            (snd (get_new_model_number (snd (initialize example_collaborators example_engine))))) = 7
   \<and> glob_number 5 (map fst (model_cache (clean_caches example_engine))) \<noteq> []
   \<and> glob_number 6 (map fst (model_cache (snd (initialize example_collaborators example_engine)))) = []
   \<and> (5::int) < 6 \<and> (6::int) < 7"
proof -
  let ?s0 = "snd (initialize example_collaborators example_engine)"
  let ?s1 = "snd (get_new_model_number ?s0)"
  let ?s2 = "snd (get_new_model_number ?s1)"
  have i: "fst (initialize example_collaborators example_engine) = Inr ()" by code_simp
  have a1: "fst (get_new_model_number ?s0) = 6" by code_simp
  have a2: "fst (get_new_model_number ?s1) = 7" by code_simp
  have p: "glob_number 5 (map fst (model_cache (clean_caches example_engine))) \<noteq> []" by code_simp
  have h1: "initialize example_collaborators example_engine = (Inr (), ?s0)"
    using i by (simp add: prod_eq_iff)
  have h3: "get_new_model_number ?s0 = (6, ?s1)" using a1 by (simp add: prod_eq_iff)
  have h5: "get_new_model_number ?s1 = (7, ?s2)" using a2 by (simp add: prod_eq_iff)
  from model_numbers_fresh_and_increasing[OF h1 order_refl h3 order_refl h5] p i a1 a2
  show ?thesis by simp
qed

subsection \<open>Accelerator specs\<close>

lemma ep_step_inv:
  assumes "ep_step seps d cpu e (ns, pr, specs) = (ns', pr', specs')"
  shows "\<exists>new. specs' = specs @ new \<and> set new \<subseteq> {\<lparr>accelerator_type = d, execution_provider = e\<rparr>}
     \<and> length new \<le> 1
     \<and> execution_provider ` set new \<subseteq> pr' \<and> pr \<subseteq> pr' \<and> pr' \<subseteq> insert e pr
     \<and> (cpu \<and> d \<noteq> Device_CPU \<and> e = CPUExecutionProvider \<longrightarrow> new = [])"
  using assms by (auto simp: ep_step_def split: if_splits)

lemma fold_ep_step_inv:
  assumes "fold (ep_step seps d cpu) es (ns, pr, specs) = (ns', pr', specs')"
  shows "\<exists>new. specs' = specs @ new \<and> accelerator_type ` set new \<subseteq> {d}
     \<and> execution_provider ` set new \<subseteq> set es
     \<and> execution_provider ` set new \<subseteq> pr' \<and> pr \<subseteq> pr' \<and> pr' \<subseteq> set es \<union> pr
     \<and> (distinct es \<longrightarrow> distinct (map execution_provider new))
     \<and> (cpu \<and> d \<noteq> Device_CPU \<longrightarrow> CPUExecutionProvider \<notin> execution_provider ` set new)"
  using assms
proof (induction es arbitrary: ns pr specs)
  case Nil
  then show ?case by simp
next
  case (Cons e es)
  obtain ns1 pr1 specs1 where st: "ep_step seps d cpu e (ns, pr, specs) = (ns1, pr1, specs1)"
    by (cases "ep_step seps d cpu e (ns, pr, specs)") auto
  from ep_step_inv[OF st] obtain new1 where n1: "specs1 = specs @ new1"
    "set new1 \<subseteq> {\<lparr>accelerator_type = d, execution_provider = e\<rparr>}"
    "execution_provider ` set new1 \<subseteq> pr1" "pr \<subseteq> pr1" "pr1 \<subseteq> insert e pr" "length new1 \<le> 1"
    "cpu \<and> d \<noteq> Device_CPU \<and> e = CPUExecutionProvider \<longrightarrow> new1 = []"
    by blast
  from Cons.prems st have "fold (ep_step seps d cpu) es (ns1, pr1, specs1) = (ns', pr', specs')"
    by simp
  from Cons.IH[OF this] obtain new2 where n2: "specs' = specs1 @ new2"
    "accelerator_type ` set new2 \<subseteq> {d}" "execution_provider ` set new2 \<subseteq> set es"
    "execution_provider ` set new2 \<subseteq> pr'" "pr1 \<subseteq> pr'" "pr' \<subseteq> set es \<union> pr1"
    "distinct es \<longrightarrow> distinct (map execution_provider new2)"
    "cpu \<and> d \<noteq> Device_CPU \<longrightarrow> CPUExecutionProvider \<notin> execution_provider ` set new2"
    by blast
  have d1: "distinct (map execution_provider new1)" using n1(6) by (cases new1) auto
  have e1: "execution_provider ` set new1 \<subseteq> {e}" using n1(2) by auto
  have a1: "accelerator_type ` set new1 \<subseteq> {d}" using n1(2) by auto
  have c1: "specs' = specs @ (new1 @ new2)" using n1(1) n2(1) by simp
  have c2: "accelerator_type ` set (new1 @ new2) \<subseteq> {d}" using a1 n2(2) by auto
  have c3: "execution_provider ` set (new1 @ new2) \<subseteq> set (e # es)" using e1 n2(3) by auto
  have c4: "execution_provider ` set (new1 @ new2) \<subseteq> pr'" using n1(3) n2(4) n2(5) by auto
  have c5: "pr \<subseteq> pr'" using n1(4) n2(5) by blast
  have c6: "pr' \<subseteq> set (e # es) \<union> pr" using n1(5) n2(6) by auto
  have c7: "distinct (e # es) \<longrightarrow> distinct (map execution_provider (new1 @ new2))"
    using d1 n2(7) e1 n2(3) by auto
  have c8: "cpu \<and> d \<noteq> Device_CPU \<longrightarrow> CPUExecutionProvider \<notin> execution_provider ` set (new1 @ new2)"
    using n1(7) e1 n2(8) by auto
  show ?case using c1 c2 c3 c4 c5 c6 c7 c8 by blast
qed


lemma resolver_inv_iff:
  "resolver_inv eps cpu (ns, pr, specs) \<longleftrightarrow>
      execution_provider ` set specs \<subseteq> pr
    \<and> (\<forall>s1\<in>set specs. \<forall>s2\<in>set specs. execution_provider s1 = execution_provider s2 \<longrightarrow> accelerator_type s1 = accelerator_type s2)
    \<and> (distinct eps \<longrightarrow> distinct (map execution_provider specs))
    \<and> (cpu \<longrightarrow> (\<forall>s\<in>set specs. execution_provider s = CPUExecutionProvider \<longrightarrow> accelerator_type s = Device_CPU))"
  by (simp only: resolver_inv_def prod.case)

lemma device_step_inv:
  assumes inv: "resolver_inv eps cpu (ns, pr, specs)"
    and f: "fold (ep_step seps d cpu) (filter (\<lambda>e. e \<notin> pr) eps) (ns, pr, specs) = (ns', pr', specs')"
  shows "resolver_inv eps cpu (ns', pr', specs')"
proof -
  let ?es = "filter (\<lambda>e. e \<notin> pr) eps"
  from fold_ep_step_inv[OF f] obtain new where n: "specs' = specs @ new"
    "accelerator_type ` set new \<subseteq> {d}" "execution_provider ` set new \<subseteq> set ?es"
    "execution_provider ` set new \<subseteq> pr'" "pr \<subseteq> pr'"
    "distinct ?es \<longrightarrow> distinct (map execution_provider new)"
    "cpu \<and> d \<noteq> Device_CPU \<longrightarrow> CPUExecutionProvider \<notin> execution_provider ` set new"
    by blast
  from inv have i: "execution_provider ` set specs \<subseteq> pr"
    "\<forall>s1\<in>set specs. \<forall>s2\<in>set specs. execution_provider s1 = execution_provider s2 \<longrightarrow> accelerator_type s1 = accelerator_type s2"
    "distinct eps \<longrightarrow> distinct (map execution_provider specs)"
    "cpu \<longrightarrow> (\<forall>s\<in>set specs. execution_provider s = CPUExecutionProvider \<longrightarrow> accelerator_type s = Device_CPU)"
    unfolding resolver_inv_iff by blast+
  have fresh: "execution_provider ` set new \<inter> execution_provider ` set specs = {}"
    using n(3) i(1) by auto
  have newd: "\<forall>s\<in>set new. accelerator_type s = d" using n(2) by auto
  have g1: "execution_provider ` set specs' \<subseteq> pr'" using n(1,4,5) i(1) by auto
  have g2: "\<forall>s1\<in>set specs'. \<forall>s2\<in>set specs'. execution_provider s1 = execution_provider s2 \<longrightarrow> accelerator_type s1 = accelerator_type s2"
  proof (intro ballI impI)
    fix s1 s2 assume a: "s1 \<in> set specs'" "s2 \<in> set specs'" "execution_provider s1 = execution_provider s2"
    consider "s1 \<in> set specs" "s2 \<in> set specs" | "s1 \<in> set new" "s2 \<in> set new"
      | "s1 \<in> set specs" "s2 \<in> set new" | "s1 \<in> set new" "s2 \<in> set specs"
      using a(1,2) n(1) by auto
    then show "accelerator_type s1 = accelerator_type s2"
    proof cases
      case 1 then show ?thesis using i(2) a(3) by blast
    next
      case 2 then show ?thesis using newd by simp
    next
      case 3 then show ?thesis using fresh a(3) by (metis disjoint_iff imageI)
    next
      case 4 then show ?thesis using fresh a(3) by (metis disjoint_iff imageI)
    qed
  qed
  have g3: "distinct eps \<longrightarrow> distinct (map execution_provider specs')"
    using n(1,6) i(3) fresh by (auto simp: distinct_filter)
  have g4: "cpu \<longrightarrow> (\<forall>s\<in>set specs'. execution_provider s = CPUExecutionProvider \<longrightarrow> accelerator_type s = Device_CPU)"
  proof (intro impI ballI)
    fix s assume c: cpu and s: "s \<in> set specs'" and e: "execution_provider s = CPUExecutionProvider"
    show "accelerator_type s = Device_CPU"
    proof (cases "s \<in> set specs")
      case True then show ?thesis using i(4) c e by blast
    next
      case False
      then have sn: "s \<in> set new" using s n(1) by auto
      then have "accelerator_type s = d" using newd by blast
      moreover have "d = Device_CPU" using n(7) c sn e by (metis imageI)
      ultimately show ?thesis by simp
    qed
  qed
  show ?thesis unfolding resolver_inv_iff using g1 g2 g3 g4 by blast
qed

lemma accelerator_loop_inv:
  assumes "accelerator_loop dv lk eps cpu accs st = Inr st'" and "resolver_inv eps cpu st"
  shows "resolver_inv eps cpu st'"
  using assms
proof (induction accs arbitrary: st)
  case Nil
  then show ?case by simp
next
  case (Cons a accs)
  obtain ns pr specs where st: "st = (ns, pr, specs)" by (cases st) auto
  from Cons.prems(1) obtain d where d: "Device dv (lower a) = Inr d"
    by (cases "Device dv (lower a)") auto
  let ?st1 = "fold (ep_step (lk d) d cpu) (filter (\<lambda>e. e \<notin> pr) eps) (ns, pr, specs)"
  have run: "accelerator_loop dv lk eps cpu accs ?st1 = Inr st'"
    using Cons.prems(1) d st by (simp add: Let_def)
  obtain ns1 pr1 specs1 where st1: "?st1 = (ns1, pr1, specs1)" by (cases ?st1) auto
  have "resolver_inv eps cpu (ns1, pr1, specs1)"
    using device_step_inv[OF _ st1] Cons.prems(2) st by simp
  then show ?case using Cons.IH run st1 by simp
qed


lemma resolver_inv_init: "resolver_inv eps cpu ({}, {}, [])"
  unfolding resolver_inv_iff by simp

lemma fate_of_provider_snoc:
  "fate_of_provider lk cpu (ds @ [d]) ep =
     (case fate_of_provider lk cpu ds ep of
        Undecided \<Rightarrow> fate_of_provider lk cpu [d] ep
      | Rejected \<Rightarrow> Rejected
      | Paired d' \<Rightarrow> Paired d')"
  by (induction ds) auto

text \<open>What one pass of the inner loop over \<open>es\<close> adds, as sets.\<close>

lemma fold_ep_step_sets:
  assumes "fold (ep_step seps d cpu) es (ns, pr, specs) = (ns', pr', specs')"
  shows "set specs' = set specs \<union>
           {\<lparr>accelerator_type = d, execution_provider = e\<rparr> | e.
              e \<in> set es \<and> e \<in> set seps \<and> \<not> (e = CPUExecutionProvider \<and> d \<noteq> Device_CPU \<and> cpu)}
       \<and> pr' = pr \<union> {e \<in> set es. \<not> (e \<in> set seps \<and> e = CPUExecutionProvider \<and> d \<noteq> Device_CPU \<and> cpu)}"
  using assms
proof (induction es arbitrary: ns pr specs)
  case Nil
  then show ?case by simp
next
  case (Cons e es)
  obtain ns1 pr1 specs1 where st: "ep_step seps d cpu e (ns, pr, specs) = (ns1, pr1, specs1)"
    by (metis prod_cases3)
  have f1: "fold (ep_step seps d cpu) es (ns1, pr1, specs1) = (ns', pr', specs')"
    using Cons.prems st by simp
  have s1: "set specs1 = set specs \<union>
           {\<lparr>accelerator_type = d, execution_provider = e'\<rparr> | e'.
              e' = e \<and> e' \<in> set seps \<and> \<not> (e' = CPUExecutionProvider \<and> d \<noteq> Device_CPU \<and> cpu)}"
    using st by (auto simp: ep_step_def split: if_splits)
  have p1: "pr1 = pr \<union> {e'. e' = e \<and> \<not> (e' \<in> set seps \<and> e' = CPUExecutionProvider \<and> d \<noteq> Device_CPU \<and> cpu)}"
    using st by (auto simp: ep_step_def split: if_splits)
  from Cons.IH[OF f1] have
    a: "set specs' = set specs1 \<union>
           {\<lparr>accelerator_type = d, execution_provider = e\<rparr> | e.
              e \<in> set es \<and> e \<in> set seps \<and> \<not> (e = CPUExecutionProvider \<and> d \<noteq> Device_CPU \<and> cpu)}"
    and b: "pr' = pr1 \<union> {e \<in> set es. \<not> (e \<in> set seps \<and> e = CPUExecutionProvider \<and> d \<noteq> Device_CPU \<and> cpu)}"
    by blast+
  have "set specs' = set specs \<union>
           {\<lparr>accelerator_type = d, execution_provider = e'\<rparr> | e'.
              e' \<in> set (e # es) \<and> e' \<in> set seps \<and> \<not> (e' = CPUExecutionProvider \<and> d \<noteq> Device_CPU \<and> cpu)}"
    unfolding a s1 by auto
  moreover have "pr' = pr \<union> {e' \<in> set (e # es). \<not> (e' \<in> set seps \<and> e' = CPUExecutionProvider \<and> d \<noteq> Device_CPU \<and> cpu)}"
    unfolding b p1 by auto
  ultimately show ?case by blast
qed


lemma fate_inv_iff:
  "fate_inv lk cpu eps ds (ns, pr, specs) \<longleftrightarrow>
     (\<forall>ep\<in>set eps.
        (case fate_of_provider lk cpu ds ep of
           Undecided \<Rightarrow> ep \<notin> pr \<and> ep \<notin> execution_provider ` set specs
         | Rejected \<Rightarrow> ep \<in> pr \<and> ep \<notin> execution_provider ` set specs
         | Paired d \<Rightarrow> ep \<in> pr \<and> \<lparr>accelerator_type = d, execution_provider = ep\<rparr> \<in> set specs
                        \<and> (\<forall>s\<in>set specs. execution_provider s = ep \<longrightarrow> accelerator_type s = d)))"
  by (simp only: fate_inv_def prod.case)

lemma fate_inv_device_step:
  assumes inv: "fate_inv lk cpu eps ds (ns, pr, specs)"
    and f: "fold (ep_step (lk d) d cpu) (filter (\<lambda>e. e \<notin> pr) eps) (ns, pr, specs) = (ns', pr', specs')"
  shows "fate_inv lk cpu eps (ds @ [d]) (ns', pr', specs')"
proof -
  let ?defer = "\<lambda>e. e = CPUExecutionProvider \<and> d \<noteq> Device_CPU \<and> cpu"
  let ?es = "filter (\<lambda>e. e \<notin> pr) eps"
  from fold_ep_step_sets[OF f] have
    S: "set specs' = set specs \<union>
           {\<lparr>accelerator_type = d, execution_provider = e\<rparr> | e.
              e \<in> set ?es \<and> e \<in> set (lk d) \<and> \<not> ?defer e}"
    and P: "pr' = pr \<union> {e \<in> set ?es. \<not> (e \<in> set (lk d) \<and> ?defer e)}"
    by blast+
  have new_ep: "execution_provider s \<in> set ?es \<and> accelerator_type s = d
                \<and> execution_provider s \<in> set (lk d) \<and> \<not> ?defer (execution_provider s)"
    if "s \<in> set specs'" "s \<notin> set specs" for s
    using that S by auto
  show ?thesis
    unfolding fate_inv_iff
  proof
    fix ep assume ep: "ep \<in> set eps"
    from inv[unfolded fate_inv_iff] ep have old:
      "(case fate_of_provider lk cpu ds ep of
           Undecided \<Rightarrow> ep \<notin> pr \<and> ep \<notin> execution_provider ` set specs
         | Rejected \<Rightarrow> ep \<in> pr \<and> ep \<notin> execution_provider ` set specs
         | Paired d \<Rightarrow> ep \<in> pr \<and> \<lparr>accelerator_type = d, execution_provider = ep\<rparr> \<in> set specs
                        \<and> (\<forall>s\<in>set specs. execution_provider s = ep \<longrightarrow> accelerator_type s = d))"
      by blast
    show "(case fate_of_provider lk cpu (ds @ [d]) ep of
           Undecided \<Rightarrow> ep \<notin> pr' \<and> ep \<notin> execution_provider ` set specs'
         | Rejected \<Rightarrow> ep \<in> pr' \<and> ep \<notin> execution_provider ` set specs'
         | Paired d \<Rightarrow> ep \<in> pr' \<and> \<lparr>accelerator_type = d, execution_provider = ep\<rparr> \<in> set specs'
                        \<and> (\<forall>s\<in>set specs'. execution_provider s = ep \<longrightarrow> accelerator_type s = d))"
    proof (cases "fate_of_provider lk cpu ds ep")
      case Undecided
      then have o: "ep \<notin> pr" "ep \<notin> execution_provider ` set specs" using old by simp_all
      then have in_es: "ep \<in> set ?es" using ep by simp
      have no_old: "s \<notin> set specs" if "execution_provider s = ep" for s
        using o(2) that by auto
      consider (rej) "ep \<notin> set (lk d)" | (def) "ep \<in> set (lk d)" "?defer ep"
        | (pair) "ep \<in> set (lk d)" "\<not> ?defer ep" by blast
      then show ?thesis
      proof cases
        case rej
        then have ft: "fate_of_provider lk cpu (ds @ [d]) ep = Rejected"
          using Undecided by (simp add: fate_of_provider_snoc)
        have "ep \<in> pr'" using P in_es rej by blast
        moreover have "ep \<notin> execution_provider ` set specs'"
        proof
          assume "ep \<in> execution_provider ` set specs'"
          then obtain s where s: "s \<in> set specs'" "execution_provider s = ep" by auto
          then have "s \<notin> set specs" using no_old by blast
          from new_ep[OF s(1) this] rej s(2) show False by simp
        qed
        ultimately show ?thesis using ft by simp
      next
        case def
        then have ft: "fate_of_provider lk cpu (ds @ [d]) ep = Undecided"
          using Undecided by (simp add: fate_of_provider_snoc)
        have "ep \<notin> pr'" using P o(1) def by blast
        moreover have "ep \<notin> execution_provider ` set specs'"
        proof
          assume "ep \<in> execution_provider ` set specs'"
          then obtain s where s: "s \<in> set specs'" "execution_provider s = ep" by auto
          then have "s \<notin> set specs" using no_old by blast
          from new_ep[OF s(1) this] def s(2) show False by simp
        qed
        ultimately show ?thesis using ft by simp
      next
        case pair
        then have ft: "fate_of_provider lk cpu (ds @ [d]) ep = Paired d"
          using Undecided by (auto simp add: fate_of_provider_snoc)
        have "ep \<in> pr'" using P in_es pair by blast
        moreover have "\<lparr>accelerator_type = d, execution_provider = ep\<rparr> \<in> set specs'"
          using S in_es pair by blast
        moreover have "accelerator_type s = d" if "s \<in> set specs'" "execution_provider s = ep" for s
          using new_ep[OF that(1)] no_old[OF that(2)] by blast
        ultimately show ?thesis using ft by simp
      qed
    next
      case Rejected
      then have o: "ep \<in> pr" "ep \<notin> execution_provider ` set specs" using old by simp_all
      have ft: "fate_of_provider lk cpu (ds @ [d]) ep = Rejected"
        using Rejected by (simp add: fate_of_provider_snoc)
      have "ep \<in> pr'" using P o(1) by blast
      moreover have "ep \<notin> execution_provider ` set specs'"
      proof
        assume "ep \<in> execution_provider ` set specs'"
        then obtain s where s: "s \<in> set specs'" "execution_provider s = ep" by auto
        then have "s \<notin> set specs" using o(2) by auto
        from new_ep[OF s(1) this] s(2) o(1) show False by simp
      qed
      ultimately show ?thesis using ft by simp
    next
      case (Paired d0)
      then have o: "ep \<in> pr" "\<lparr>accelerator_type = d0, execution_provider = ep\<rparr> \<in> set specs"
        "\<And>s. s \<in> set specs \<Longrightarrow> execution_provider s = ep \<Longrightarrow> accelerator_type s = d0"
        using old by simp_all
      have ft: "fate_of_provider lk cpu (ds @ [d]) ep = Paired d0"
        using Paired by (simp add: fate_of_provider_snoc)
      have "ep \<in> pr'" using P o(1) by blast
      moreover have "\<lparr>accelerator_type = d0, execution_provider = ep\<rparr> \<in> set specs'"
        using S o(2) by blast
      moreover have "accelerator_type s = d0" if "s \<in> set specs'" "execution_provider s = ep" for s
      proof (cases "s \<in> set specs")
        case True then show ?thesis using o(3) that(2) by blast
      next
        case False
        from new_ep[OF that(1) this] that(2) o(1) show ?thesis by simp
      qed
      ultimately show ?thesis using ft by simp
    qed
  qed
qed

lemma accelerator_loop_fate:
  assumes "accelerator_loop dv lk eps cpu accs st = Inr st'" and "fate_inv lk cpu eps ds st"
  shows "fate_inv lk cpu eps (ds @ map lower accs) st'"
  using assms
proof (induction accs arbitrary: st ds)
  case Nil
  then show ?case by simp
next
  case (Cons a accs)
  obtain ns pr specs where st: "st = (ns, pr, specs)" by (metis prod_cases3)
  from Cons.prems(1) obtain d where d: "Device dv (lower a) = Inr d"
    by (cases "Device dv (lower a)") auto
  then have dl: "d = lower a" by (auto simp: Device_def split: if_splits)
  let ?st1 = "fold (ep_step (lk d) d cpu) (filter (\<lambda>e. e \<notin> pr) eps) (ns, pr, specs)"
  have run: "accelerator_loop dv lk eps cpu accs ?st1 = Inr st'"
    using Cons.prems(1) d st by (simp add: Let_def)
  obtain ns1 pr1 specs1 where st1: "?st1 = (ns1, pr1, specs1)" by (metis prod_cases3)
  have i0: "fate_inv lk cpu eps ds (ns, pr, specs)" using Cons.prems(2) st by simp
  have "fate_inv lk cpu eps (ds @ [d]) (ns1, pr1, specs1)"
    by (rule fate_inv_device_step[where lk = lk and d = d, OF i0 st1])
  from Cons.IH[OF run[unfolded st1] this] show ?case using dl by simp
qed

lemma accelerator_loop_providers:
  assumes "accelerator_loop dv lk eps cpu accs st = Inr st'"
    and "execution_provider ` set (snd (snd st)) \<subseteq> set eps"
  shows "execution_provider ` set (snd (snd st')) \<subseteq> set eps"
  using assms
proof (induction accs arbitrary: st)
  case Nil
  then show ?case by simp
next
  case (Cons a accs)
  obtain ns pr specs where st: "st = (ns, pr, specs)" by (metis prod_cases3)
  from Cons.prems(1) obtain d where d: "Device dv (lower a) = Inr d"
    by (cases "Device dv (lower a)") auto
  let ?st1 = "fold (ep_step (lk d) d cpu) (filter (\<lambda>e. e \<notin> pr) eps) (ns, pr, specs)"
  have run: "accelerator_loop dv lk eps cpu accs ?st1 = Inr st'"
    using Cons.prems(1) d st by (simp add: Let_def)
  obtain ns1 pr1 specs1 where st1: "?st1 = (ns1, pr1, specs1)" by (metis prod_cases3)
  from fold_ep_step_sets[OF st1] have "execution_provider ` set specs1 \<subseteq> set eps"
    using Cons.prems(2) st by auto
  then show ?case using Cons.IH[OF run[unfolded st1]] by simp
qed

text \<open>
  Claim C5, as the code has it. Whenever the resolver returns a list of accelerator specs,
  the list is not empty (an empty list raises AssertionError instead); every execution
  provider is paired with at most one device, that is, all specs that name it have the
  same device; when the list of execution providers has no duplicates, every provider
  appears in at most one spec; when a CPU device is among the target's accelerators,
  CPUExecutionProvider is paired with the CPU device only; and the specs are those of
  the rules of the spec: every spec names a listed provider, a listed provider is in a
  spec exactly when those rules pair it, with the device they pair it with, and a
  provider that was rejected for a device is in no spec, whatever the later devices
  support.
\<close>

theorem accelerator_specs_pairing:
  assumes "accelerator_specs_of device_values lookup execution_providers target_accelerators = Inr specs"
  shows "specs \<noteq> []
    \<and> (\<forall>s1\<in>set specs. \<forall>s2\<in>set specs.
          execution_provider s1 = execution_provider s2 \<longrightarrow> accelerator_type s1 = accelerator_type s2)
    \<and> (distinct execution_providers \<longrightarrow> distinct (map execution_provider specs))
    \<and> (Device_CPU \<in> set (map lower (case target_accelerators of None \<Rightarrow> [''CPU''] | Some a \<Rightarrow> a)) \<longrightarrow>
          (\<forall>s\<in>set specs. execution_provider s = CPUExecutionProvider \<longrightarrow> accelerator_type s = Device_CPU))
    \<and> execution_provider ` set specs \<subseteq> set execution_providers
    \<and> (\<forall>ep\<in>set execution_providers.
          case fate_of_provider lookup
                 (Device_CPU \<in> set (map lower (case target_accelerators of None \<Rightarrow> [''CPU''] | Some a \<Rightarrow> a)))
                 (map lower (case target_accelerators of None \<Rightarrow> [''CPU''] | Some a \<Rightarrow> a)) ep of
            Paired d \<Rightarrow> \<lparr>accelerator_type = d, execution_provider = ep\<rparr> \<in> set specs
          | Rejected \<Rightarrow> ep \<notin> execution_provider ` set specs
          | Undecided \<Rightarrow> ep \<notin> execution_provider ` set specs)"
proof -
  define accs where "accs = (case target_accelerators of None \<Rightarrow> [''CPU''] | Some a \<Rightarrow> a)"
  define cpu where "cpu = (Device_CPU \<in> set (map lower accs))"
  from assms obtain ns pr where
    loop: "accelerator_loop device_values lookup execution_providers cpu accs ({}, {}, []) = Inr (ns, pr, specs)"
    and ne: "specs \<noteq> []"
    unfolding accelerator_specs_of_def Let_def accs_def[symmetric] cpu_def[symmetric]
    by (auto split: sum.splits prod.splits if_splits)
  have "resolver_inv execution_providers cpu (ns, pr, specs)"
    using accelerator_loop_inv[OF loop resolver_inv_init] .
  then have old: "(\<forall>s1\<in>set specs. \<forall>s2\<in>set specs.
          execution_provider s1 = execution_provider s2 \<longrightarrow> accelerator_type s1 = accelerator_type s2)
    \<and> (distinct execution_providers \<longrightarrow> distinct (map execution_provider specs))
    \<and> (cpu \<longrightarrow> (\<forall>s\<in>set specs. execution_provider s = CPUExecutionProvider \<longrightarrow> accelerator_type s = Device_CPU))"
    unfolding resolver_inv_iff by blast
  have sub: "execution_provider ` set specs \<subseteq> set execution_providers"
    using accelerator_loop_providers[OF loop] by simp
  have "fate_inv lookup cpu execution_providers [] ({}, {}, [])"
    unfolding fate_inv_iff by simp
  from accelerator_loop_fate[OF loop this]
  have fi: "fate_inv lookup cpu execution_providers (map lower accs) (ns, pr, specs)" by simp
  have fate: "case fate_of_provider lookup cpu (map lower accs) ep of
            Paired d \<Rightarrow> \<lparr>accelerator_type = d, execution_provider = ep\<rparr> \<in> set specs
          | Rejected \<Rightarrow> ep \<notin> execution_provider ` set specs
          | Undecided \<Rightarrow> ep \<notin> execution_provider ` set specs"
    if "ep \<in> set execution_providers" for ep
    using fi[unfolded fate_inv_iff] that
    by (cases "fate_of_provider lookup cpu (map lower accs) ep") fastforce+
  show ?thesis
    using ne old sub fate unfolding cpu_def accs_def by blast
qed

theorem accelerator_specs_pairing_witness:
  "accelerator_specs_of example_devices example_lookup
      [''CPUExecutionProvider'', ''CUDAExecutionProvider'', ''FooExecutionProvider''] (Some [''GPU'', ''CPU''])
    = Inr [\<lparr>accelerator_type = ''gpu'', execution_provider = ''CUDAExecutionProvider''\<rparr>,
           \<lparr>accelerator_type = ''cpu'', execution_provider = ''CPUExecutionProvider''\<rparr>]
   \<and> distinct [''CPUExecutionProvider'', ''CUDAExecutionProvider'', ''FooExecutionProvider'']
   \<and> Device_CPU \<in> set (map lower [''GPU'', ''CPU''])
   \<and> distinct (map execution_provider
        [\<lparr>accelerator_type = ''gpu'', execution_provider = ''CUDAExecutionProvider''\<rparr>,
         \<lparr>accelerator_type = ''cpu'', execution_provider = ''CPUExecutionProvider''\<rparr>])
   \<and> accelerator_specs_of example_devices example_lookup
        [''CUDAExecutionProvider'', ''CPUExecutionProvider''] (Some [''CPU'', ''GPU''])
      = Inr [\<lparr>accelerator_type = ''cpu'', execution_provider = ''CPUExecutionProvider''\<rparr>]
   \<and> ''CUDAExecutionProvider'' \<in> set (example_lookup ''gpu'')
   \<and> fate_of_provider example_lookup True [''cpu'', ''gpu''] ''CUDAExecutionProvider'' = Rejected
   \<and> fate_of_provider example_lookup True [''cpu'', ''gpu''] ''CPUExecutionProvider'' = Paired ''cpu''
   \<and> ''CUDAExecutionProvider'' \<notin> execution_provider `
        set [\<lparr>accelerator_type = ''cpu'', execution_provider = ''CPUExecutionProvider''\<rparr>]"
proof -
  have run: "accelerator_specs_of example_devices example_lookup
      [''CPUExecutionProvider'', ''CUDAExecutionProvider'', ''FooExecutionProvider''] (Some [''GPU'', ''CPU''])
    = Inr [\<lparr>accelerator_type = ''gpu'', execution_provider = ''CUDAExecutionProvider''\<rparr>,
           \<lparr>accelerator_type = ''cpu'', execution_provider = ''CPUExecutionProvider''\<rparr>]"
    by (simp add: accelerator_specs_of_def example_devices_def example_lookup_def Device_def
        lower_def lower_char_def ep_step_def Device_CPU_def CPUExecutionProvider_def)
  have run2: "accelerator_specs_of example_devices example_lookup
        [''CUDAExecutionProvider'', ''CPUExecutionProvider''] (Some [''CPU'', ''GPU''])
      = Inr [\<lparr>accelerator_type = ''cpu'', execution_provider = ''CPUExecutionProvider''\<rparr>]"
    by (simp add: accelerator_specs_of_def example_devices_def example_lookup_def Device_def
        lower_def lower_char_def ep_step_def Device_CPU_def CPUExecutionProvider_def)
  have d: "distinct [''CPUExecutionProvider'', ''CUDAExecutionProvider'', ''FooExecutionProvider'']"
    by simp
  have c: "Device_CPU \<in> set (map lower [''GPU'', ''CPU''])"
    by (simp add: lower_def lower_char_def Device_CPU_def)
  have c2: "(Device_CPU \<in> set (map lower [''CPU'', ''GPU''])) = True"
    and l2: "map lower [''CPU'', ''GPU''] = [''cpu'', ''gpu'']"
    by (simp_all add: lower_def lower_char_def Device_CPU_def)
  have g: "''CUDAExecutionProvider'' \<in> set (example_lookup ''gpu'')"
    by (simp add: example_lookup_def)
  have f1: "fate_of_provider example_lookup True [''cpu'', ''gpu''] ''CUDAExecutionProvider'' = Rejected"
    by (simp add: example_lookup_def)
  have f2: "fate_of_provider example_lookup True [''cpu'', ''gpu''] ''CPUExecutionProvider'' = Paired ''cpu''"
    by (simp add: example_lookup_def CPUExecutionProvider_def Device_CPU_def)
  have m1: "''CUDAExecutionProvider'' \<in> set [''CUDAExecutionProvider'', ''CPUExecutionProvider'']" by simp
  note a = accelerator_specs_pairing[OF run]
  note b = accelerator_specs_pairing[OF run2]
  note fb = conjunct2[OF conjunct2[OF conjunct2[OF conjunct2[OF conjunct2[OF b]]]]]
  have "''CUDAExecutionProvider'' \<notin> execution_provider `
        set [\<lparr>accelerator_type = ''cpu'', execution_provider = ''CPUExecutionProvider''\<rparr>]"
    using bspec[OF fb m1]
    by (simp add: lower_def lower_char_def Device_CPU_def CPUExecutionProvider_def example_lookup_def)
  with a d c run run2 g f1 f2 show ?thesis by simp
qed

text \<open>
  With a provider listed twice, the inner loop pairs it twice with the same device: the
  list \<open>eps\<close> is computed before the loop over it, so the second occurrence is still in it.
\<close>

theorem provider_in_two_specs_counterexample:
  "accelerator_specs_of example_devices example_lookup
      [''CPUExecutionProvider'', ''CPUExecutionProvider''] (Some [''cpu''])
    = Inr [\<lparr>accelerator_type = ''cpu'', execution_provider = ''CPUExecutionProvider''\<rparr>,
           \<lparr>accelerator_type = ''cpu'', execution_provider = ''CPUExecutionProvider''\<rparr>]
   \<and> \<not> distinct (map execution_provider
        [\<lparr>accelerator_type = ''cpu'', execution_provider = ''CPUExecutionProvider''\<rparr>,
         \<lparr>accelerator_type = ''cpu'', execution_provider = ''CPUExecutionProvider''\<rparr>])"
  by (simp add: accelerator_specs_of_def example_devices_def example_lookup_def Device_def
        lower_def lower_char_def ep_step_def Device_CPU_def CPUExecutionProvider_def)

subsection \<open>The model cache\<close>

lemma read_file_update:
  "read_file (AList.update k (Content x) files) k = Some x"
  by (simp add: read_file_def update_conv')

lemma read_file_update_other:
  "k' \<noteq> k \<Longrightarrow> read_file (AList.update k v files) k' = read_file files k'"
  by (simp add: read_file_def update_conv')

lemma write_file_Some_iff:
  "write_file w dir name x files = Some files' \<longleftrightarrow>
     w (dir @ ''/'' @ name) \<and> map_of files name \<noteq> Some Directory
     \<and> files' = AList.update name (Content x) files"
  by (auto simp: write_file_def)

text \<open>
  Claim C9. Caching the sentinel writes the empty JSON object as the sidecar (when the
  sidecar can be written at all), and loading it back gives the sentinel; loading any
  model id whose sidecar is the empty object gives exactly the sentinel; and loading a
  sidecar that is missing, is a directory or cannot be parsed gives \<open>None\<close>:
  \<open>load_model\<close> has no exceptional result.
\<close>

theorem pruned_round_trip:
  "(writable c (''models/'' @ get_model_json_path model_id)
      \<and> map_of (model_cache s) (get_model_json_path model_id) \<noteq> Some Directory \<longrightarrow>
        read_file (model_cache (cache_model c PRUNED_CONFIG model_id s)) (get_model_json_path model_id)
          = Some (JObject [])
      \<and> fst (load_model model_id (cache_model c PRUNED_CONFIG model_id s)) = Some PRUNED_CONFIG)
   \<and> (read_file (model_cache s) (get_model_json_path model_id) = Some (JObject []) \<longrightarrow>
        fst (load_model model_id s) = Some PRUNED_CONFIG)
   \<and> (read_file (model_cache s) (get_model_json_path model_id) = None \<longrightarrow>
        fst (load_model model_id s) = None)"
proof (intro conjI impI)
  assume w: "writable c (''models/'' @ get_model_json_path model_id)
      \<and> map_of (model_cache s) (get_model_json_path model_id) \<noteq> Some Directory"
  then have "write_file (writable c) ''models'' (get_model_json_path model_id) (JObject []) (model_cache s)
      = Some (AList.update (get_model_json_path model_id) (Content (JObject [])) (model_cache s))"
    by (simp add: write_file_def)
  then have mc: "model_cache (cache_model c PRUNED_CONFIG model_id s)
      = AList.update (get_model_json_path model_id) (Content (JObject [])) (model_cache s)"
    by (simp add: cache_model_def)
  show r: "read_file (model_cache (cache_model c PRUNED_CONFIG model_id s)) (get_model_json_path model_id)
          = Some (JObject [])"
    by (simp only: mc read_file_update)
  show "fst (load_model model_id (cache_model c PRUNED_CONFIG model_id s)) = Some PRUNED_CONFIG"
    by (simp add: load_model_def r)
next
  assume "read_file (model_cache s) (get_model_json_path model_id) = Some (JObject [])"
  then show "fst (load_model model_id s) = Some PRUNED_CONFIG" by (simp add: load_model_def)
next
  assume "read_file (model_cache s) (get_model_json_path model_id) = None"
  then show "fst (load_model model_id s) = None" by (simp add: load_model_def)
qed

theorem pruned_round_trip_witness:
  "writable example_collaborators (''models/'' @ get_model_json_path ''7_OnnxConversion-abc-c0ffee'')
   \<and> map_of (model_cache example_engine) (get_model_json_path ''7_OnnxConversion-abc-c0ffee'') \<noteq> Some Directory
   \<and> read_file (model_cache (cache_model example_collaborators PRUNED_CONFIG ''7_OnnxConversion-abc-c0ffee'' example_engine))
        (get_model_json_path ''7_OnnxConversion-abc-c0ffee'') = Some (JObject [])
   \<and> fst (load_model ''7_OnnxConversion-abc-c0ffee''
        (cache_model example_collaborators PRUNED_CONFIG ''7_OnnxConversion-abc-c0ffee'' example_engine)) = Some PRUNED_CONFIG
   \<and> read_file (model_cache example_engine) (get_model_json_path ''5_OnnxConversion-abc-c0ffee'') = None
   \<and> fst (load_model ''5_OnnxConversion-abc-c0ffee'' example_engine) = None"
proof -
  let ?s = "cache_model example_collaborators PRUNED_CONFIG ''7_OnnxConversion-abc-c0ffee'' example_engine"
  have w: "writable example_collaborators (''models/'' @ get_model_json_path ''7_OnnxConversion-abc-c0ffee'')"
    by (simp add: example_collaborators_def)
  have d: "map_of (model_cache example_engine) (get_model_json_path ''7_OnnxConversion-abc-c0ffee'') \<noteq> Some Directory"
    by (simp add: example_engine_def get_model_json_path_def)
  have n: "read_file (model_cache example_engine) (get_model_json_path ''5_OnnxConversion-abc-c0ffee'') = None"
    by (simp add: example_engine_def get_model_json_path_def read_file_def)
  note a = pruned_round_trip[of example_collaborators "''7_OnnxConversion-abc-c0ffee''" example_engine]
  note b = pruned_round_trip[of example_collaborators "''7_OnnxConversion-abc-c0ffee''" ?s]
  note e = pruned_round_trip[of example_collaborators "''5_OnnxConversion-abc-c0ffee''" example_engine]
  from a w d have r: "read_file (model_cache ?s) (get_model_json_path ''7_OnnxConversion-abc-c0ffee'') = Some (JObject [])"
    and l: "fst (load_model ''7_OnnxConversion-abc-c0ffee'' ?s) = Some PRUNED_CONFIG"
    by blast+
  from b r have "fst (load_model ''7_OnnxConversion-abc-c0ffee'' ?s) = Some PRUNED_CONFIG" by blast
  moreover from e n have "fst (load_model ''5_OnnxConversion-abc-c0ffee'' example_engine) = None" by blast
  ultimately show ?thesis using w d r n by blast
qed

subsection \<open>Running a pass\<close>

subsection \<open>What the steps of a pass execution change\<close>

lemma log_message_fields [simp]:
  "host_calls (log_message l m s) = host_calls s"
  "run_cache (log_message l m s) = run_cache s"
  "model_cache (log_message l m s) = model_cache s"
  "passes (log_message l m s) = passes s"
  "no_search (log_message l m s) = no_search s"
  "host (log_message l m s) = host s"
  "new_model_number (log_message l m s) = new_model_number s"
  by (simp_all add: log_message_def)

lemma load_run_frame:
  assumes "load_run c input_model_id pass_name pass_cfg run_accel s = (r, s1)"
  shows "host_calls s1 = host_calls s" "run_cache s1 = run_cache s" "model_cache s1 = model_cache s"
    "passes s1 = passes s" "no_search s1 = no_search s" "host s1 = host s"
    "new_model_number s1 = new_model_number s"
  using assms by (auto simp: load_run_def Let_def split: if_splits option.splits)

lemma load_model_frame:
  assumes "load_model model_id s = (r, s1)"
  shows "host_calls s1 = host_calls s" "run_cache s1 = run_cache s" "model_cache s1 = model_cache s"
    "passes s1 = passes s" "no_search s1 = no_search s" "host s1 = host s"
    "new_model_number s1 = new_model_number s"
  using assms by (auto simp: load_model_def split: if_splits option.splits)

lemma cache_model_frame [simp]:
  "host_calls (cache_model c m model_id s) = host_calls s"
  "run_cache (cache_model c m model_id s) = run_cache s"
  "new_model_number (cache_model c m model_id s) = new_model_number s"
  by (simp_all add: cache_model_def Let_def split: option.splits)

lemma cache_run_frame [simp]:
  "host_calls (cache_run c pn cfg i oid a s) = host_calls s"
  "model_cache (cache_run c pn cfg i oid a s) = model_cache s"
  "new_model_number (cache_run c pn cfg i oid a s) = new_model_number s"
  by (simp_all add: cache_run_def Let_def split: option.splits)

lemma record_run_frame [simp]:
  "host_calls (record_run a oid m i pn cfg s) = host_calls s"
  "run_cache (record_run a oid m i pn cfg s) = run_cache s"
  "model_cache (record_run a oid m i pn cfg s) = model_cache s"
  "new_model_number (record_run a oid m i pn cfg s) = new_model_number s"
  by (simp_all add: record_run_def)

text \<open>The \<open>try\<close> statement: the host is called once, and the result follows the
  \<open>except\<close> clauses.\<close>

lemma try_run_pass_result:
  assumes "try_run_pass h p m path point s = (r, s')"
  shows "host_calls s' = host_calls s @ [(class_name p, m, path, point)]"
    and "run_cache s' = run_cache s" and "new_model_number s' = new_model_number s"
    and "r = (case run_pass h p m path point of
               Inr output_model \<Rightarrow> Inr output_model
             | Inl e \<Rightarrow> if e = OlivePassException then Inr PRUNED_CONFIG
                        else if e \<in> set EXCEPTIONS_TO_RAISE \<or> no_search s then Inl e
                        else Inr PRUNED_CONFIG)"
  using assms
  by (auto simp: try_run_pass_def Let_def split: sum.splits if_splits)






subsection \<open>Failures of the host\<close>




subsection \<open>The run cache\<close>

subsection \<open>The set-up is only read\<close>

lemma same_setup_refl [simp]: "same_setup s s"
  by (simp add: same_setup_def)

lemma same_setup_trans: "same_setup s s1 \<Longrightarrow> same_setup s1 s2 \<Longrightarrow> same_setup s s2"
  by (simp add: same_setup_def)

lemma same_setup_fields:
  assumes "same_setup s s'"
  shows "passes s' = passes s" "no_search s' = no_search s" "host s' = host s"
    "target s' = target s" "evaluator_config s' = evaluator_config s"
  using assms by (simp_all add: same_setup_def)

lemma same_setup_updates [simp]:
  "same_setup s (log_message l msg s)"
  "same_setup s (s\<lparr>new_model_number := n\<rparr>)"
  "same_setup s (s\<lparr>model_cache := mc\<rparr>)"
  "same_setup s (s\<lparr>run_cache := rc\<rparr>)"
  "same_setup s (s\<lparr>evaluation_cache := ec\<rparr>)"
  "same_setup s (s\<lparr>host_calls := hc\<rparr>)"
  "same_setup s (s\<lparr>target_calls := tc\<rparr>)"
  "same_setup s (s\<lparr>footprints := fp\<rparr>)"
  by (simp_all add: same_setup_def log_message_def)

lemma same_setup_cache_model [simp]: "same_setup s (cache_model c m model_id s)"
  by (simp add: cache_model_def Let_def split: option.splits)

lemma same_setup_cache_run [simp]: "same_setup s (cache_run c pn cfg i oid a s)"
  by (simp add: cache_run_def Let_def split: option.splits)

lemma same_setup_record_run [simp]: "same_setup s (record_run a oid m i pn cfg s)"
  by (simp add: record_run_def)

lemma same_setup_load_run: "load_run c mid pn cfg a s = (r, s1) \<Longrightarrow> same_setup s s1"
  by (auto simp: load_run_def Let_def split: if_splits option.splits)

lemma same_setup_load_model: "load_model oid s = (r, s1) \<Longrightarrow> same_setup s s1"
  by (auto simp: load_model_def split: if_splits option.splits)

lemma same_setup_try_run_pass: "try_run_pass h p m path point s = (r, s') \<Longrightarrow> same_setup s s'"
  by (auto simp: try_run_pass_def Let_def same_setup_def log_message_def split: sum.splits if_splits)

lemma same_setup_run_pass_uncached:
  assumes run: "run_pass_uncached c pass_id p point cfg m mid acc s = (r, s')"
  shows "same_setup s s'"
proof -
  obtain n s1 where g: "get_new_model_number s = (n, s1)" by (metis surj_pair)
  have s1: "s1 = s\<lparr>new_model_number := n + 1\<rparr>" using get_new_model_number_spec(4)[OF g] .
  then have ss1: "same_setup s s1" by simp
  define oid0 where "oid0 = new_output_model_id c n p cfg mid acc"
  define path where "path = ''models/'' @ oid0 @ ''/output_model''"
  show ?thesis
  proof (cases "mkdir (writable c) ''models'' oid0 (model_cache s1)")
    case (Inl e)
    then have "s' = s1" using run g by (simp add: run_pass_uncached_def Let_def oid0_def)
    then show ?thesis using ss1 by simp
  next
    case (Inr files)
    define s2 where "s2 = s1\<lparr>model_cache := files\<rparr>"
    have ss2: "same_setup s s2" unfolding s2_def using ss1 same_setup_trans same_setup_updates(3) by blast
    define produced where "produced =
       (if \<not> validate_search_point p point \<and> \<not> no_search s2 then (Inr PRUNED_CONFIG, s2)
        else (case host_for_pass s2 pass_id of
                Inl e \<Rightarrow> (Inl e, s2)
              | Inr h \<Rightarrow>
                  (case (if system_type h \<noteq> AzureML then prepare_non_local_model c m else Inr m) of
                     Inl e \<Rightarrow> (Inl e, s2)
                   | Inr m' \<Rightarrow> try_run_pass h p m' path point s2)))"
    have run': "(r, s') = (case produced of
                 (Inl e, s3) \<Rightarrow> (Inl e, s3)
               | (Inr out, s3) \<Rightarrow>
                   (Inr (out, oid0),
                    record_run acc oid0 out mid (class_name p) cfg
                      (cache_run c (class_name p) cfg mid oid0 (run_accel_of p acc)
                         (cache_model c out oid0 s3))))"
      unfolding run[symmetric]
      by (simp only: run_pass_uncached_def Let_def g prod.case Inr[unfolded oid0_def] sum.case
            produced_def s2_def oid0_def path_def)
    obtain pr s3 where p3: "produced = (pr, s3)" by (metis surj_pair)
    have ss3: "same_setup s2 s3"
    proof -
      consider "s3 = s2"
        | h m' where "try_run_pass h p m' path point s2 = (pr, s3)"
        using p3 unfolding produced_def by (auto split: if_splits sum.splits)
      then show ?thesis
      proof cases
        case 1 then show ?thesis by simp
      next
        case 2 then show ?thesis using same_setup_try_run_pass by blast
      qed
    qed
    have "same_setup s3 s'"
    proof (cases pr)
      case (Inl e)
      then show ?thesis using run' p3 by simp
    next
      case (Inr out)
      then have "s' = record_run acc oid0 out mid (class_name p) cfg
                      (cache_run c (class_name p) cfg mid oid0 (run_accel_of p acc)
                         (cache_model c out oid0 s3))"
        using run' p3 by simp
      then show ?thesis
        using same_setup_trans[OF same_setup_cache_model
                same_setup_trans[OF same_setup_cache_run same_setup_record_run]]
        by simp
    qed
    then show ?thesis using ss2 ss3 same_setup_trans by blast
  qed
qed

lemma same_setup_engine_run_pass:
  assumes run: "engine_run_pass c pass_id point m mid acc s = (r, s')"
  shows "same_setup s s'"
proof (cases "map_of (passes s) pass_id")
  case None
  then show ?thesis using run by (simp add: engine_run_pass_def)
next
  case (Some item)
  define p where "p = item_pass item"
  define cfg where "cfg = serialize_config p (config_at_search_point p point)"
  obtain lr s0 where lr: "load_run c mid (class_name p) cfg (run_accel_of p acc) s = (lr, s0)"
    by (metis surj_pair)
  note f1 = same_setup_load_run[OF lr]
  show ?thesis
  proof (cases lr)
    case None
    then have "run_pass_uncached c pass_id p point cfg m mid acc s0 = (r, s')"
      using run Some lr by (simp add: engine_run_pass_def Let_def p_def cfg_def)
    then have "same_setup s0 s'" by (rule same_setup_run_pass_uncached)
    then show ?thesis using same_setup_trans[OF f1] by blast
  next
    case (Some oid)
    obtain lm s2 where lm: "load_model oid s0 = (lm, s2)" by (metis surj_pair)
    note f2 = same_setup_load_model[OF lm]
    show ?thesis
    proof (cases lm)
      case None
      then have "run_pass_uncached c pass_id p point cfg m mid acc s2 = (r, s')"
        using run \<open>map_of (passes s) pass_id = Some item\<close> lr Some lm
        by (simp add: engine_run_pass_def Let_def p_def cfg_def)
      then have "same_setup s2 s'" by (rule same_setup_run_pass_uncached)
      then show ?thesis using same_setup_trans[OF same_setup_trans[OF f1 f2]] by blast
    next
      case (Some out)
      then have "s' = record_run acc oid out mid (class_name p) cfg s2"
        using run \<open>map_of (passes s) pass_id = Some item\<close> lr \<open>lr = Some oid\<close> lm
        by (simp add: engine_run_pass_def Let_def p_def cfg_def)
      then have "same_setup s2 s'" by simp
      then show ?thesis using same_setup_trans[OF same_setup_trans[OF f1 f2]] by blast
    qed
  qed
qed

subsection \<open>The run cache\<close>

lemma run_pass_uncached_Inr:
  assumes run: "run_pass_uncached c pass_id p point cfg m mid acc s = (Inr (out, oid), s')"
  shows "\<exists>s3. run_cache s3 = run_cache s
            \<and> s' = record_run acc oid out mid (class_name p) cfg
                     (cache_run c (class_name p) cfg mid oid (run_accel_of p acc)
                        (cache_model c out oid s3))"
proof -
  obtain n s1 where g: "get_new_model_number s = (n, s1)" by (metis surj_pair)
  have s1: "s1 = s\<lparr>new_model_number := n + 1\<rparr>" using get_new_model_number_spec(4)[OF g] .
  define oid0 where "oid0 = new_output_model_id c n p cfg mid acc"
  define path where "path = ''models/'' @ oid0 @ ''/output_model''"
  show ?thesis
  proof (cases "mkdir (writable c) ''models'' oid0 (model_cache s1)")
    case (Inl e)
    then show ?thesis using run g by (simp add: run_pass_uncached_def Let_def oid0_def)
  next
    case (Inr files)
    define s2 where "s2 = s1\<lparr>model_cache := files\<rparr>"
    have rc2: "run_cache s2 = run_cache s" by (simp add: s2_def s1)
    define produced where "produced =
       (if \<not> validate_search_point p point \<and> \<not> no_search s2 then (Inr PRUNED_CONFIG, s2)
        else (case host_for_pass s2 pass_id of
                Inl e \<Rightarrow> (Inl e, s2)
              | Inr h \<Rightarrow>
                  (case (if system_type h \<noteq> AzureML then prepare_non_local_model c m else Inr m) of
                     Inl e \<Rightarrow> (Inl e, s2)
                   | Inr m' \<Rightarrow> try_run_pass h p m' path point s2)))"
    have run': "(Inr (out, oid), s') = (case produced of
                 (Inl e, s3) \<Rightarrow> (Inl e, s3)
               | (Inr out, s3) \<Rightarrow>
                   (Inr (out, oid0),
                    record_run acc oid0 out mid (class_name p) cfg
                      (cache_run c (class_name p) cfg mid oid0 (run_accel_of p acc)
                         (cache_model c out oid0 s3))))"
      unfolding run[symmetric]
      by (simp only: run_pass_uncached_def Let_def g prod.case Inr[unfolded oid0_def] sum.case
            produced_def s2_def oid0_def path_def)
    obtain pr s3 where p3: "produced = (pr, s3)" by (metis surj_pair)
    from run' p3 have pr: "pr = Inr out" and oid: "oid = oid0"
      and s': "s' = record_run acc oid0 out mid (class_name p) cfg
                      (cache_run c (class_name p) cfg mid oid0 (run_accel_of p acc)
                         (cache_model c out oid0 s3))"
      by (cases pr; simp)+
    have "run_cache s3 = run_cache s2"
    proof -
      consider "s3 = s2"
        | h m' where "try_run_pass h p m' path point s2 = (pr, s3)"
        using p3 unfolding produced_def by (auto split: if_splits sum.splits)
      then show ?thesis
      proof cases
        case 1 then show ?thesis by simp
      next
        case 2 then show ?thesis using try_run_pass_result(2) by blast
      qed
    qed
    then show ?thesis using s' oid rc2 by metis
  qed
qed

lemma cache_run_written:
  assumes "writable c (''runs/'' @ get_run_json_path c pn (split_first mid) cfg a)"
    and "map_of (run_cache s) (get_run_json_path c pn (split_first mid) cfg a) \<noteq> Some Directory"
  shows "read_file (run_cache (cache_run c pn cfg mid oid a s)) (get_run_json_path c pn (split_first mid) cfg a)
         = Some \<lparr>run_pass_name = pn, run_pass_config = cfg, run_input_model_id = mid,
                  run_output_model_id = Some oid\<rparr>"
  using assms by (simp add: cache_run_def Let_def write_file_def read_file_update)

lemma load_run_Some:
  assumes "load_run c mid pn cfg a s = (Some oid, s1)"
  shows "s1 = s" and "\<exists>rj. read_file (run_cache s) (get_run_json_path c pn (split_first mid) cfg a) = Some rj
                    \<and> run_output_model_id rj = Some oid"
  using assms by (auto simp: load_run_def Let_def split: if_splits option.splits)

lemma load_run_of_file:
  assumes "read_file (run_cache s) (get_run_json_path c pn (split_first mid) cfg a) = Some rj"
  shows "load_run c mid pn cfg a s = (run_output_model_id rj, s)"
proof -
  have "path_exists (run_cache s) (get_run_json_path c pn (split_first mid) cfg a)"
    using assms by (auto simp: path_exists_def read_file_def split: option.splits)
  then show ?thesis using assms by (simp add: load_run_def Let_def)
qed

text \<open>After a pass execution that returned, the run JSON names the returned model id,
  provided the run JSON can be written.\<close>

lemma run_json_after_execution:
  assumes run: "engine_run_pass c pass_id point m mid acc s = (Inr (out, oid), s1)"
    and item: "map_of (passes s) pass_id = Some item"
    and w: "writable c (''runs/'' @ probed_run_json_path c (item_pass item) point mid acc)"
    and d: "map_of (run_cache s) (probed_run_json_path c (item_pass item) point mid acc) \<noteq> Some Directory"
  shows "\<exists>rj. read_file (run_cache s1) (probed_run_json_path c (item_pass item) point mid acc) = Some rj
            \<and> run_output_model_id rj = Some oid"
proof -
  define p where "p = item_pass item"
  define cfg where "cfg = serialize_config p (config_at_search_point p point)"
  define rp where "rp = get_run_json_path c (class_name p) (split_first mid) cfg (run_accel_of p acc)"
  have rp: "probed_run_json_path c (item_pass item) point mid acc = rp"
    by (simp add: probed_run_json_path_def rp_def cfg_def p_def)
  obtain lr s0 where lr: "load_run c mid (class_name p) cfg (run_accel_of p acc) s = (lr, s0)"
    by (metis surj_pair)
  note f1 = load_run_frame[OF lr]
  have unc: ?thesis if u: "run_pass_uncached c pass_id p point cfg m mid acc s' = (Inr (out, oid), s1)"
    and f: "run_cache s' = run_cache s" for s'
  proof -
    from run_pass_uncached_Inr[OF u] obtain s3 where s3: "run_cache s3 = run_cache s'"
      "s1 = record_run acc oid out mid (class_name p) cfg
             (cache_run c (class_name p) cfg mid oid (run_accel_of p acc) (cache_model c out oid s3))"
      by blast
    have rc: "run_cache (cache_model c out oid s3) = run_cache s" using s3(1) f by simp
    have "read_file (run_cache (cache_run c (class_name p) cfg mid oid (run_accel_of p acc)
                                  (cache_model c out oid s3))) rp
          = Some \<lparr>run_pass_name = class_name p, run_pass_config = cfg, run_input_model_id = mid,
                   run_output_model_id = Some oid\<rparr>"
      unfolding rp_def
      by (rule cache_run_written) (use w d rc rp rp_def in simp_all)
    then have "read_file (run_cache s1) rp
          = Some \<lparr>run_pass_name = class_name p, run_pass_config = cfg, run_input_model_id = mid,
                   run_output_model_id = Some oid\<rparr>"
      using s3(2) by simp
    then show ?thesis unfolding rp by simp
  qed
  show ?thesis
  proof (cases lr)
    case None
    then have "run_pass_uncached c pass_id p point cfg m mid acc s0 = (Inr (out, oid), s1)"
      using run item lr by (simp add: engine_run_pass_def Let_def p_def cfg_def)
    then show ?thesis using unc f1(2) by blast
  next
    case (Some oid')
    obtain lm s2 where lm: "load_model oid' s0 = (lm, s2)" by (metis surj_pair)
    note f2 = load_model_frame[OF lm]
    show ?thesis
    proof (cases lm)
      case None
      then have "run_pass_uncached c pass_id p point cfg m mid acc s2 = (Inr (out, oid), s1)"
        using run item lr Some lm by (simp add: engine_run_pass_def Let_def p_def cfg_def)
      moreover have "run_cache s2 = run_cache s" using f1 f2 by simp
      ultimately show ?thesis using unc by blast
    next
      case (Some out')
      then have e: "oid = oid'" "s1 = record_run acc oid' out' mid (class_name p) cfg s2"
        using run item lr \<open>lr = Some oid'\<close> lm
        by (simp_all add: engine_run_pass_def Let_def p_def cfg_def eq_commute[of _ s1])
      from load_run_Some(2)[OF lr[unfolded \<open>lr = Some oid'\<close>]] obtain rj where
        "read_file (run_cache s) rp = Some rj" "run_output_model_id rj = Some oid'"
        unfolding rp_def by blast
      moreover have "run_cache s1 = run_cache s" using e(2) f1 f2 by simp
      ultimately show ?thesis unfolding rp using e(1) by simp
    qed
  qed
qed

text \<open>A pass execution that finds a run JSON naming a model id takes the model from the
  cache when its sidecar loads, and runs the pass as without a run JSON otherwise.\<close>

lemma execution_with_run_json:
  assumes item: "map_of (passes s) pass_id = Some item"
    and rj: "read_file (run_cache s) (probed_run_json_path c (item_pass item) point mid acc) = Some rj"
    and oid: "run_output_model_id rj = Some oid"
  shows "engine_run_pass c pass_id point m mid acc s =
     (case load_model oid s of
        (Some out, s2) \<Rightarrow>
          (Inr (out, oid),
           record_run acc oid out mid (class_name (item_pass item))
             (serialize_config (item_pass item) (config_at_search_point (item_pass item) point)) s2)
      | (None, s2) \<Rightarrow>
          run_pass_uncached c pass_id (item_pass item) point
            (serialize_config (item_pass item) (config_at_search_point (item_pass item) point))
            m mid acc s2)"
proof -
  have "load_run c mid (class_name (item_pass item))
          (serialize_config (item_pass item) (config_at_search_point (item_pass item) point))
          (run_accel_of (item_pass item) acc) s = (Some oid, s)"
    using load_run_of_file[OF rj[unfolded probed_run_json_path_def]] oid by simp
  then show ?thesis using item by (simp add: engine_run_pass_def Let_def)
qed

text \<open>
  Claim C1, as the code has it. Let a pass execution return an output model id, and let
  the path of its run JSON be one that can be written (otherwise \<open>_cache_run\<close> only logs
  the failure). Then every later pass execution with the same input model id, pass name,
  serialized pass configuration and accelerator (elided for an accelerator-agnostic pass),
  in a state whose run JSON at that path is the one the first execution left, finds the
  cached run: when the sidecar of the cached model loads, the execution returns the same
  output model id and does not call the host; when it does not load, the execution is the
  one of a cache miss, and the pass is run again.
\<close>

theorem cached_run_is_reused:
  assumes "engine_run_pass c pass_id point m mid acc s = (Inr (out, oid), s1)"
    and "map_of (passes s) pass_id = Some item"
    and "writable c (''runs/'' @ probed_run_json_path c (item_pass item) point mid acc)"
    and "map_of (run_cache s) (probed_run_json_path c (item_pass item) point mid acc) \<noteq> Some Directory"
    and "map_of (passes s2) pass_id2 = Some item2"
    and "class_name (item_pass item2) = class_name (item_pass item)"
    and "serialize_config (item_pass item2) (config_at_search_point (item_pass item2) point2)
         = serialize_config (item_pass item) (config_at_search_point (item_pass item) point)"
    and "run_accel_of (item_pass item2) acc2 = run_accel_of (item_pass item) acc"
    and "map_of (run_cache s2) (probed_run_json_path c (item_pass item) point mid acc)
         = map_of (run_cache s1) (probed_run_json_path c (item_pass item) point mid acc)"
    and "engine_run_pass c pass_id2 point2 m2 mid acc2 s2 = (r2, s2')"
  shows "(\<forall>out2. fst (load_model oid s2) = Some out2 \<longrightarrow>
            r2 = Inr (out2, oid) \<and> host_calls s2' = host_calls s2)
       \<and> (fst (load_model oid s2) = None \<longrightarrow>
            (r2, s2') = run_pass_uncached c pass_id2 (item_pass item2) point2
                          (serialize_config (item_pass item2)
                             (config_at_search_point (item_pass item2) point2))
                          m2 mid acc2 (snd (load_model oid s2)))"
proof -
  let ?rp = "probed_run_json_path c (item_pass item) point mid acc"
  from run_json_after_execution[OF assms(1-4)] obtain rj where
    rj: "read_file (run_cache s1) ?rp = Some rj" "run_output_model_id rj = Some oid" by blast
  have same_path: "probed_run_json_path c (item_pass item2) point2 mid acc2 = ?rp"
    using assms(6-8) by (simp add: probed_run_json_path_def)
  have "read_file (run_cache s2) ?rp = Some rj"
    using rj(1) assms(9) by (simp add: read_file_def)
  then have "read_file (run_cache s2) (probed_run_json_path c (item_pass item2) point2 mid acc2) = Some rj"
    using same_path by simp
  note e = execution_with_run_json[OF assms(5) this rj(2), of m2]
  obtain lm s3 where lm: "load_model oid s2 = (lm, s3)" by (metis surj_pair)
  note f = load_model_frame[OF lm]
  show ?thesis
  proof (cases lm)
    case None
    then show ?thesis using e lm assms(10) by simp
  next
    case (Some out2)
    then have "r2 = Inr (out2, oid)"
      and "s2' = record_run acc2 oid out2 mid (class_name (item_pass item2))
                   (serialize_config (item_pass item2)
                      (config_at_search_point (item_pass item2) point2)) s3"
      using e lm assms(10) by simp_all
    then show ?thesis using Some lm f(1) by simp
  qed
qed

theorem cached_run_is_reused_witness:
  "fst (example_run example_collaborators example_engine)
     = Inr (example_output_model ''0_OnnxConversion-abc-c0ffee'', ''0_OnnxConversion-abc-c0ffee'')
   \<and> fst (load_model ''0_OnnxConversion-abc-c0ffee''
            (snd (example_run example_collaborators example_engine)))
     = Some (example_output_model ''0_OnnxConversion-abc-c0ffee'')
   \<and> fst (example_run example_collaborators (snd (example_run example_collaborators example_engine)))
     = Inr (example_output_model ''0_OnnxConversion-abc-c0ffee'', ''0_OnnxConversion-abc-c0ffee'')
   \<and> host_calls (snd (example_run example_collaborators
                         (snd (example_run example_collaborators example_engine))))
     = host_calls (snd (example_run example_collaborators example_engine))
   \<and> fst (load_model ''0_OnnxConversion-abc-c0ffee''
            ((snd (example_run example_collaborators example_engine))\<lparr>model_cache := []\<rparr>)) = None
   \<and> example_run example_collaborators
         ((snd (example_run example_collaborators example_engine))\<lparr>model_cache := []\<rparr>)
     = run_pass_uncached example_collaborators ''OnnxConversion'' example_pass (JObject [])
         (JObject []) example_input_model ''abc'' example_accelerator
         (snd (load_model ''0_OnnxConversion-abc-c0ffee''
                 ((snd (example_run example_collaborators example_engine))\<lparr>model_cache := []\<rparr>)))"
proof -
  let ?c = example_collaborators
  let ?oid = "''0_OnnxConversion-abc-c0ffee''"
  let ?m = "example_output_model ?oid"
  let ?s1 = "snd (example_run ?c example_engine)"
  let ?s2 = "?s1\<lparr>model_cache := []\<rparr>"
  let ?item = "\<lparr>item_pass = example_pass, item_host = None, item_evaluator = None,
                 item_output_name = None\<rparr>"
  have first: "fst (example_run ?c example_engine) = Inr (?m, ?oid)" by code_simp
  have l1: "fst (load_model ?oid ?s1) = Some ?m" by code_simp
  have l2: "fst (load_model ?oid ?s2) = None" by code_simp
  have h1: "engine_run_pass ?c ''OnnxConversion'' (JObject []) example_input_model ''abc''
              example_accelerator example_engine = (Inr (?m, ?oid), ?s1)"
    using first by (simp add: example_run_def prod_eq_iff)
  have h2: "map_of (passes example_engine) ''OnnxConversion'' = Some ?item"
    by (simp add: example_engine_def)
  have h3: "writable ?c (''runs/'' @ probed_run_json_path ?c (item_pass ?item) (JObject []) ''abc''
              example_accelerator)"
    by (simp add: example_collaborators_def)
  have h4: "map_of (run_cache example_engine)
              (probed_run_json_path ?c (item_pass ?item) (JObject []) ''abc'' example_accelerator)
            \<noteq> Some Directory"
    by (simp add: example_engine_def)
  have p1: "passes ?s1 = passes example_engine"
    using same_setup_fields(1)[OF same_setup_engine_run_pass[OF h1]] .
  have h5: "map_of (passes ?s1) ''OnnxConversion'' = Some ?item" using h2 p1 by simp
  have h5': "map_of (passes ?s2) ''OnnxConversion'' = Some ?item" using h2 p1 by simp
  have h9': "map_of (run_cache ?s2)
               (probed_run_json_path ?c (item_pass ?item) (JObject []) ''abc'' example_accelerator)
             = map_of (run_cache ?s1)
               (probed_run_json_path ?c (item_pass ?item) (JObject []) ''abc'' example_accelerator)"
    by simp
  have r1: "engine_run_pass ?c ''OnnxConversion'' (JObject []) example_input_model ''abc''
              example_accelerator ?s1 = (fst (example_run ?c ?s1), snd (example_run ?c ?s1))"
    by (simp add: example_run_def)
  have r2: "engine_run_pass ?c ''OnnxConversion'' (JObject []) example_input_model ''abc''
              example_accelerator ?s2 = (fst (example_run ?c ?s2), snd (example_run ?c ?s2))"
    by (simp add: example_run_def)
  note hit = cached_run_is_reused[OF h1 h2 h3 h4 h5 refl refl refl refl r1]
  note miss = cached_run_is_reused[OF h1 h2 h3 h4 h5' refl refl refl h9' r2]
  from hit l1 have a: "fst (example_run ?c ?s1) = Inr (?m, ?oid)"
    and b: "host_calls (snd (example_run ?c ?s1)) = host_calls ?s1"
    by blast+
  have cfg: "serialize_config (item_pass ?item) (config_at_search_point (item_pass ?item) (JObject []))
             = JObject []"
    by (simp add: example_pass_def)
  from miss l2 have "(fst (example_run ?c ?s2), snd (example_run ?c ?s2))
      = run_pass_uncached ?c ''OnnxConversion'' (item_pass ?item) (JObject [])
          (serialize_config (item_pass ?item) (config_at_search_point (item_pass ?item) (JObject [])))
          example_input_model ''abc'' example_accelerator (snd (load_model ?oid ?s2))"
    by blast
  then have c: "example_run ?c ?s2
      = run_pass_uncached ?c ''OnnxConversion'' example_pass (JObject []) (JObject [])
          example_input_model ''abc'' example_accelerator (snd (load_model ?oid ?s2))"
    unfolding cfg by simp
  show ?thesis using first l1 a b l2 c by blast
qed

text \<open>
  When the run cache cannot be written, \<open>_cache_run\<close> logs the failure and the first
  execution returns all the same. The second execution with the same input model id,
  pass, configuration and accelerator then finds no run JSON: it calls the host again
  and returns another output model id.
\<close>

theorem run_not_cached_counterexample:
  "fst (example_run read_only_runs example_engine)
     = Inr (example_output_model ''0_OnnxConversion-abc-c0ffee'', ''0_OnnxConversion-abc-c0ffee'')
   \<and> logged (snd (example_run read_only_runs example_engine)) = [(Error, ''Failed to cache run'')]
   \<and> fst (example_run read_only_runs (snd (example_run read_only_runs example_engine)))
     = Inr (example_output_model ''1_OnnxConversion-abc-c0ffee'', ''1_OnnxConversion-abc-c0ffee'')
   \<and> length (host_calls (snd (example_run read_only_runs
                                 (snd (example_run read_only_runs example_engine))))) = 2"
  by code_simp

subsection \<open>Goal resolution\<close>



lemma fold_skip:
  "fold (\<lambda>x d. if P x then d else f x d) xs d = fold f (filter (\<lambda>x. \<not> P x) xs) d"
  by (induction xs arbitrary: d) simp_all












subsection \<open>Goals that are all thresholds\<close>

lemma update_entries: "set (AList.update k v al) \<subseteq> insert (k, v) (set al)"
  by (induction al) auto

lemma fold_update_entries:
  "set (fold (\<lambda>x d. AList.update (kf x) (vf x) d) xs al) \<subseteq> set al \<union> (\<lambda>x. (kf x, vf x)) ` set xs"
proof (induction xs arbitrary: al)
  case Nil
  then show ?case by simp
next
  case (Cons x xs)
  have "set (AList.update (kf x) (vf x) al) \<subseteq> insert (kf x, vf x) (set al)"
    by (rule update_entries)
  with Cons.IH[of "AList.update (kf x) (vf x) al"] show ?case by auto
qed

lemma get_sub_type_info_entries:
  assumes "(sn, v) \<in> set (get_sub_type_info info metric)"
  shows "\<exists>st\<in>set (sub_types metric). v = info st"
proof -
  have "get_sub_type_info info metric
        = fold (\<lambda>st d. AList.update (sub_type_name st) (info st) d)
            (filter (\<lambda>st. \<not> priority st \<le> 0) (sub_types metric)) []"
    unfolding get_sub_type_info_def by (rule fold_skip)
  with assms fold_update_entries[of sub_type_name info
      "filter (\<lambda>st. \<not> priority st \<le> 0) (sub_types metric)" "[]"]
  show ?thesis by auto
qed

lemma goals_of_entries:
  assumes "e \<in> set (goals_of ms)"
  shows "\<exists>metric\<in>set ms. snd e = get_sub_type_info goal metric"
proof -
  from assms have "e \<in> (\<lambda>x. (metric_name x, get_sub_type_info goal x)) ` set ms"
    using fold_update_entries[of metric_name "get_sub_type_info goal" ms "[]"]
    unfolding goals_of_def by auto
  then show ?thesis by auto
qed

lemma asks_for_baseline_goal:
  "asks_for_baseline gs \<Longrightarrow> \<exists>g. Some g \<in> set gs \<and> goal_type g \<noteq> ''threshold''"
  by (induction gs rule: asks_for_baseline.induct) (auto split: if_splits)

text \<open>
  Claim C3, as the code has it: when every goal is a threshold, no goal asks for the
  baseline, the input model is not evaluated and the engine is left as it was; but the
  baseline is then \<open>None\<close>, and \<open>resolve_goals\<close> returns the empty dictionary (lines 598
  to 600), not the values of the goals.
\<close>

theorem threshold_goals_resolve_to_nothing:
  assumes "\<forall>metric\<in>set ms. \<forall>st\<in>set (sub_types metric). \<forall>g. goal st = Some g \<longrightarrow> goal_type g = ''threshold''"
  shows "resolve_goals c m mid ms acc s = (Inr [], s)"
proof -
  have "\<not> baseline_needed (goals_of ms)"
  proof
    assume "baseline_needed (goals_of ms)"
    then obtain e where e: "e \<in> set (goals_of ms)" "asks_for_baseline (map snd (snd e))"
      unfolding baseline_needed_def list_ex_iff by blast
    from goals_of_entries[OF e(1)] obtain metric where
      metric: "metric \<in> set ms" "snd e = get_sub_type_info goal metric" by blast
    from asks_for_baseline_goal[OF e(2)] obtain g where
      g: "Some g \<in> set (map snd (snd e))" "goal_type g \<noteq> ''threshold''" by blast
    from g(1) metric(2) obtain sn where "(sn, Some g) \<in> set (get_sub_type_info goal metric)"
      by auto
    from get_sub_type_info_entries[OF this] obtain st where
      "st \<in> set (sub_types metric)" "goal st = Some g" by auto
    with assms metric(1) g(2) show False by blast
  qed
  then show ?thesis by (simp add: resolve_goals_def Let_def)
qed

theorem threshold_goals_resolve_to_nothing_witness:
  "goal_type threshold_goal = ''threshold''
   \<and> resolve_goals example_collaborators example_input_model ''abc''
       [accuracy_metric (Some threshold_goal)] example_accelerator
       (evaluating_engine (Some threshold_goal))
     = (Inr [], evaluating_engine (Some threshold_goal))"
  using threshold_goals_resolve_to_nothing[of "[accuracy_metric (Some threshold_goal)]"
      example_collaborators example_input_model "''abc''" example_accelerator
      "evaluating_engine (Some threshold_goal)"]
  by (simp add: accuracy_metric_def threshold_goal_def)

subsection \<open>Registering passes\<close>

text \<open>The loop of \<open>register_pass\<close> terminates: the registered names that are numbered
  names from the counter on become fewer.\<close>

lemma numbered_name_inj: "numbered_name cls n = numbered_name cls m \<Longrightarrow> n = m"
  by (auto simp: numbered_name_def split: if_splits dest: str_nat_inj)

termination unused_name
proof (relation "measure (\<lambda>(cls, names, i).
         length (filter (\<lambda>name. \<exists>n\<ge>i. name = numbered_name cls n) names))")
  show "wf (measure (\<lambda>(cls, names, i).
         length (filter (\<lambda>name. \<exists>n\<ge>i. name = numbered_name cls n) names)))"
    by simp
next
  fix cls :: string and names :: "string list" and i :: nat
  assume "\<not> numbered_name cls i \<notin> set names"
  then have mem: "numbered_name cls i \<in> set names" by simp
  have notq: "\<not> (\<exists>n\<ge>i + 1. numbered_name cls i = numbered_name cls n)"
  proof
    assume "\<exists>n\<ge>i + 1. numbered_name cls i = numbered_name cls n"
    then obtain n where "i + 1 \<le> n" "numbered_name cls i = numbered_name cls n" by blast
    then show False using numbered_name_inj[of cls i n] by simp
  qed
  have p: "\<exists>n\<ge>i. numbered_name cls i = numbered_name cls n" by blast
  have mono: "\<And>x. (\<exists>n\<ge>i + 1. x = numbered_name cls n) \<Longrightarrow> (\<exists>n\<ge>i. x = numbered_name cls n)"
  proof -
    fix x assume "\<exists>n\<ge>i + 1. x = numbered_name cls n"
    then obtain n where "i + 1 \<le> n" "x = numbered_name cls n" by blast
    then have "i \<le> n \<and> x = numbered_name cls n" by simp
    then show "\<exists>n\<ge>i. x = numbered_name cls n" by blast
  qed
  have "length (filter (\<lambda>name. \<exists>n\<ge>i + 1. name = numbered_name cls n) names)
        < length (filter (\<lambda>name. \<exists>n\<ge>i. name = numbered_name cls n) names)"
    using mono mem p notq
    by (intro length_filter_less_mono[of names _ _ "numbered_name cls i"]) blast+
  then show "((cls, names, i + 1), cls, names, i) \<in> measure (\<lambda>(cls, names, i).
         length (filter (\<lambda>name. \<exists>n\<ge>i. name = numbered_name cls n) names))"
    by simp
qed

declare unused_name.simps [simp del]

lemma unused_name_fresh: "unused_name cls names i \<notin> set names"
proof (induction cls names i rule: unused_name.induct)
  case (1 cls names i)
  show ?case
  proof (cases "numbered_name cls i \<notin> set names")
    case True
    then show ?thesis by (subst unused_name.simps) simp
  next
    case False
    then show ?thesis using 1 by (subst unused_name.simps) simp
  qed
qed



end
